theory Spec2Isabelle
  imports Complex_Main "HOL-Library.Multiset"
begin

section \<open>Data model (types.ts)\<close>

text \<open>
  A JavaScript number, as far as the engine computes with scores: a finite value, one of the
  two infinities, or NaN. The finite values are exact rationals; the rounding of doubles and
  the sign of zero are left out.
\<close>

datatype number = Finite rat | PosInfinity | NegInfinity | NaN

text \<open>
  The interfaces of \<^verbatim>\<open>types.ts\<close> as records. A TypeScript \<^verbatim>\<open>number\<close> that holds an id or a
  counter is an \<open>int\<close>; one that holds a score, which \<^verbatim>\<open>recordResult\<close> obtains with
  \<^verbatim>\<open>Number(key)\<close> from a property key, or a sum of scores, is a \<open>number\<close>; an optional or
  nullable field is an \<open>option\<close>. The fields
  \<^verbatim>\<open>id\<close> of Player and Court are written \<open>player_id\<close> and \<open>court_id\<close>, the field
  \<^verbatim>\<open>team\<close> of TeamStatistics \<open>stat_team\<close> and the field \<^verbatim>\<open>courtId\<close> of MatchResult
  \<open>result_courtId\<close>, because a record field is a constant of the theory. The timestamp of a
  result is the reading of the clock, a natural number handed to \<open>recordResult\<close>.
\<close>

record Player =
  player_id :: int
  name :: string

record Team =
  player1 :: Player
  player2 :: Player

record Score =
  team :: Team
  score :: number

record Match =
  team1 :: Team
  team2 :: Team
  matchNumber :: int
  courtId :: "int option"
  currentScores :: "(int \<times> int) option"

record MatchResult =
  played :: Match
  winner :: Team
  loser :: Team
  timestamp :: nat
  result_courtId :: "int option"
  scores :: "(Score \<times> Score) option"

record Court =
  court_id :: int
  currentMatch :: "Match option"
  consecutiveWins :: int
  currentCourtTeam :: "Team option"

record TeamStatistics =
  stat_team :: Team
  wins :: int
  losses :: int
  totalPoints :: number
  pointsAgainst :: number

record SystemState =
  courts :: "Court list"
  queue :: "Team list"
  matchHistory :: "MatchResult list"

record QueueManager =
  state :: SystemState
  matchCounter :: int

text \<open>
  The error classes. \<open>NotInitializedError\<close> stands for the plain \<^verbatim>\<open>Error\<close> that
  \<^verbatim>\<open>addTeams\<close> throws before \<^verbatim>\<open>initialize\<close>, \<open>InvalidCourtCountError\<close> for the one
  of the constructor.
\<close>

datatype QMError =
    InsufficientTeamsError
  | InvalidMatchResultError
  | NoActiveMatchError
  | CourtNotFoundError
  | InvalidQueueIndexError
  | InvalidMatchIndexError
  | NotInitializedError
  | InvalidCourtCountError

text \<open>
  A method either throws or returns. A throw is \<open>Inl\<close> of the error together with the
  manager as the method left it at the throw, so that what a failed call did to the state
  can be stated; a return is \<open>Inr\<close> of the manager after the call.
\<close>

type_synonym Outcome = "(QMError \<times> QueueManager) + QueueManager"

section \<open>JavaScript built-ins the engine relies on\<close>

subsection \<open>Array.prototype.sort\<close>

text \<open>
  \<^verbatim>\<open>xs.sort(cmp)\<close> is stable, and puts \<open>a\<close> before \<open>b\<close> when \<open>cmp a b < 0\<close>.
  Insertion from the right keeps elements that compare equal in their first order.
\<close>

fun insert_by :: "('a \<Rightarrow> 'a \<Rightarrow> int) \<Rightarrow> 'a \<Rightarrow> 'a list \<Rightarrow> 'a list" where
  "insert_by cmp x [] = [x]"
| "insert_by cmp x (y # ys) =
     (if cmp x y \<le> 0 then x # y # ys else y # insert_by cmp x ys)"

definition array_sort :: "('a \<Rightarrow> 'a \<Rightarrow> int) \<Rightarrow> 'a list \<Rightarrow> 'a list" where
  "array_sort cmp xs = foldr (insert_by cmp) xs []"

subsection \<open>Arithmetic and comparison of numbers\<close>

text \<open>
  \<^verbatim>\<open>a + b\<close>, \<^verbatim>\<open>a - b\<close> and \<^verbatim>\<open>a < b\<close> on numbers: NaN is contagious, the sum of the two
  infinities is NaN, and no comparison with NaN holds.
\<close>

definition number_negate :: "number \<Rightarrow> number" where
  "number_negate a =
     (case a of Finite x \<Rightarrow> Finite (- x) | PosInfinity \<Rightarrow> NegInfinity
      | NegInfinity \<Rightarrow> PosInfinity | NaN \<Rightarrow> NaN)"

definition number_plus :: "number \<Rightarrow> number \<Rightarrow> number" where
  "number_plus a b =
     (case a of
        NaN \<Rightarrow> NaN
      | Finite x \<Rightarrow> (case b of Finite y \<Rightarrow> Finite (x + y) | _ \<Rightarrow> b)
      | PosInfinity \<Rightarrow> (case b of NegInfinity \<Rightarrow> NaN | NaN \<Rightarrow> NaN | _ \<Rightarrow> PosInfinity)
      | NegInfinity \<Rightarrow> (case b of PosInfinity \<Rightarrow> NaN | NaN \<Rightarrow> NaN | _ \<Rightarrow> NegInfinity))"

definition number_minus :: "number \<Rightarrow> number \<Rightarrow> number" where
  "number_minus a b = number_plus a (number_negate b)"

definition number_less :: "number \<Rightarrow> number \<Rightarrow> bool" where
  "number_less a b =
     (case a of
        NaN \<Rightarrow> False
      | Finite x \<Rightarrow> (case b of Finite y \<Rightarrow> x < y | PosInfinity \<Rightarrow> True | _ \<Rightarrow> False)
      | PosInfinity \<Rightarrow> False
      | NegInfinity \<Rightarrow> (case b of Finite y \<Rightarrow> True | PosInfinity \<Rightarrow> True | _ \<Rightarrow> False))"

text \<open>
  What \<^verbatim>\<open>sort\<close> makes of the number a comparator returned: negative, zero or positive,
  with NaN read as zero.
\<close>

definition sort_order :: "number \<Rightarrow> int" where
  "sort_order v =
     (case v of Finite x \<Rightarrow> (if x < 0 then - 1 else if 0 < x then 1 else 0)
      | PosInfinity \<Rightarrow> 1 | NegInfinity \<Rightarrow> - 1 | NaN \<Rightarrow> 0)"

subsection \<open>Number to string, and the default sort order\<close>

text \<open>
  \<^verbatim>\<open>[a, b].sort()\<close> without a comparator compares the elements as strings, by code
  unit: 10 sorts before 9. Ids are integers, printed in decimal.
\<close>

definition digit_char :: "nat \<Rightarrow> char" where
  "digit_char d = char_of (48 + d)"

function digits_of :: "nat \<Rightarrow> string" where
  "digits_of n = (if n < 10 then [digit_char n] else digits_of (n div 10) @ [digit_char (n mod 10)])"
  by pat_completeness auto
termination
  by (relation "measure (\<lambda>n. n)") auto

declare digits_of.simps [simp del]

definition toString :: "int \<Rightarrow> string" where
  "toString i = (if i < 0 then CHR ''-'' # digits_of (nat (- i)) else digits_of (nat i))"

fun string_less :: "string \<Rightarrow> string \<Rightarrow> bool" where
  "string_less [] [] = False"
| "string_less [] (y # ys) = True"
| "string_less (x # xs) [] = False"
| "string_less (x # xs) (y # ys) =
     ((of_char x :: nat) < of_char y \<or> (x = y \<and> string_less xs ys))"

definition default_compare :: "int \<Rightarrow> int \<Rightarrow> int" where
  "default_compare a b =
     (if string_less (toString a) (toString b) then - 1
      else if string_less (toString b) (toString a) then 1 else 0)"

subsection \<open>String to number\<close>

text \<open>
  \<^verbatim>\<open>Number(s)\<close> on a string: white space at both ends is dropped; the empty string is 0; a
  decimal literal may have a sign, a fraction and an exponent, or be \<^verbatim>\<open>Infinity\<close>; a
  literal with the prefix \<^verbatim>\<open>0x\<close>, \<^verbatim>\<open>0o\<close> or \<^verbatim>\<open>0b\<close> is an unsigned integer in that radix;
  every other string is NaN. So \<^verbatim>\<open>'15'\<close>, \<^verbatim>\<open>'15.0'\<close>, \<^verbatim>\<open>'015'\<close> and \<^verbatim>\<open>'1.5e1'\<close> are four
  strings for the number 15. Strings are lists of 8-bit characters here.
\<close>

definition is_white_space :: "char \<Rightarrow> bool" where
  "is_white_space c =
     (c \<in> set [CHR 0x09, CHR 0x0A, CHR 0x0B, CHR 0x0C, CHR 0x0D, CHR 0x20, CHR 0xA0])"

definition trim_white_space :: "string \<Rightarrow> string" where
  "trim_white_space s = rev (dropWhile is_white_space (rev (dropWhile is_white_space s)))"

definition is_digit :: "char \<Rightarrow> bool" where
  "is_digit c = (c \<in> set ''0123456789'')"

definition digit_value :: "char \<Rightarrow> int" where
  "digit_value c = of_char c - 48"

definition decimal_value :: "string \<Rightarrow> int" where
  "decimal_value ds = foldl (\<lambda>n c. 10 * n + digit_value c) 0 ds"

definition all_digits :: "string \<Rightarrow> bool" where
  "all_digits ds = (ds \<noteq> [] \<and> list_all is_digit ds)"

text \<open>The exponent after \<^verbatim>\<open>e\<close>: digits with an optional sign.\<close>

definition signed_integer :: "string \<Rightarrow> int option" where
  "signed_integer s =
     (case s of [] \<Rightarrow> None
      | c # r \<Rightarrow>
          if c = CHR ''+'' then (if all_digits r then Some (decimal_value r) else None)
          else if c = CHR ''-'' then (if all_digits r then Some (- decimal_value r) else None)
          else if all_digits s then Some (decimal_value s) else None)"

definition scale10 :: "rat \<Rightarrow> int \<Rightarrow> rat" where
  "scale10 x e = (if 0 \<le> e then x * 10 ^ nat e else x / 10 ^ nat (- e))"

text \<open>
  An unsigned decimal literal: \<^verbatim>\<open>Infinity\<close>, or digits, an optional point with digits, and
  an optional exponent, with at least one digit before or after the point.
\<close>

definition unsigned_decimal :: "string \<Rightarrow> number" where
  "unsigned_decimal s =
     (if s = ''Infinity'' then PosInfinity
      else
        (let whole = takeWhile is_digit s;
             rest = dropWhile is_digit s;
             has_point = (rest \<noteq> [] \<and> hd rest = CHR ''.'');
             fraction = (if has_point then takeWhile is_digit (tl rest) else []);
             tail = (if has_point then dropWhile is_digit (tl rest) else rest);
             exponent = (case tail of [] \<Rightarrow> Some 0
                         | c # r \<Rightarrow> if c = CHR ''e'' \<or> c = CHR ''E'' then signed_integer r else None)
         in if whole = [] \<and> fraction = [] then NaN
            else (case exponent of None \<Rightarrow> NaN
                  | Some e \<Rightarrow> Finite (scale10 (of_int (decimal_value (whole @ fraction)))
                                         (e - int (length fraction))))))"

definition radix_digit :: "char \<Rightarrow> int option" where
  "radix_digit c =
     (if c \<in> set ''0123456789'' then Some (of_char c - 48)
      else if c \<in> set ''abcdef'' then Some (of_char c - 87)
      else if c \<in> set ''ABCDEF'' then Some (of_char c - 55)
      else None)"

definition radix_literal :: "int \<Rightarrow> string \<Rightarrow> number" where
  "radix_literal base ds =
     (if ds \<noteq> [] \<and> list_all (\<lambda>c. case radix_digit c of None \<Rightarrow> False | Some d \<Rightarrow> d < base) ds
      then Finite (of_int (foldl (\<lambda>n c. base * n + (case radix_digit c of None \<Rightarrow> 0 | Some d \<Rightarrow> d)) 0 ds))
      else NaN)"

definition Number :: "string \<Rightarrow> number" where
  "Number s =
     (let t = trim_white_space s
      in if t = [] then Finite 0
         else if take 2 t \<in> set [''0x'', ''0X''] then radix_literal 16 (drop 2 t)
         else if take 2 t \<in> set [''0o'', ''0O''] then radix_literal 8 (drop 2 t)
         else if take 2 t \<in> set [''0b'', ''0B''] then radix_literal 2 (drop 2 t)
         else if hd t = CHR ''+'' then unsigned_decimal (tl t)
         else if hd t = CHR ''-'' then number_negate (unsigned_decimal (tl t))
         else unsigned_decimal t)"

subsection \<open>Objects, Object.entries\<close>

text \<open>
  The score map is an object \<^verbatim>\<open>Record<number, Team>\<close>, such as \<^verbatim>\<open>{ 15: team1, 10: team2 }\<close>.
  The keys of an object are strings: the key written \<^verbatim>\<open>15\<close> is the string \<^verbatim>\<open>'15'\<close>, and
  \<^verbatim>\<open>'15.0'\<close> is another key. The object is given by the properties as the caller wrote them,
  in order. An object holds one value for a key: writing a key again replaces the value and
  keeps the key's place. \<^verbatim>\<open>Object.entries\<close> lists the keys that are array indices (the
  decimal strings of 0 to 4294967294, without a leading zero) in ascending order, then the
  other keys in the order of their creation.
\<close>

type_synonym 'v properties = "(string \<times> 'v) list"

fun object_set :: "string \<Rightarrow> 'v \<Rightarrow> 'v properties \<Rightarrow> 'v properties" where
  "object_set k v [] = [(k, v)]"
| "object_set k v (p # ps) = (if fst p = k then (k, v) # ps else p # object_set k v ps)"

definition object_of :: "'v properties \<Rightarrow> 'v properties" where
  "object_of props = fold (\<lambda>p obj. object_set (fst p) (snd p) obj) props []"

definition is_array_index :: "string \<Rightarrow> bool" where
  "is_array_index k =
     (all_digits k \<and> (k = ''0'' \<or> hd k \<noteq> CHR ''0'') \<and> decimal_value k < 4294967295)"

definition Object_entries :: "'v properties \<Rightarrow> (string \<times> 'v) list" where
  "Object_entries props =
     (let own = object_of props
      in sort_key (\<lambda>p. decimal_value (fst p)) (filter (\<lambda>p. is_array_index (fst p)) own)
         @ filter (\<lambda>p. \<not> is_array_index (fst p)) own)"

section \<open>The engine (queue-management.ts)\<close>

subsection \<open>Team identity\<close>

definition sorted_ids :: "Team \<Rightarrow> int list" where
  "sorted_ids t = array_sort default_compare [player_id (player1 t), player_id (player2 t)]"

definition areTeamsEqual :: "Team \<Rightarrow> Team \<Rightarrow> bool" where
  "areTeamsEqual t1 t2 =
     (let team1Ids = sorted_ids t1; team2Ids = sorted_ids t2
      in team1Ids ! 0 = team2Ids ! 0 \<and> team1Ids ! 1 = team2Ids ! 1)"

definition getTeamKey :: "Team \<Rightarrow> string" where
  "getTeamKey t = (let ids = sorted_ids t in toString (ids ! 0) @ ''-'' @ toString (ids ! 1))"

definition createPlayer :: "int \<Rightarrow> string \<Rightarrow> Player" where
  "createPlayer i n = \<lparr>player_id = i, name = n\<rparr>"

definition createTeam :: "Player \<Rightarrow> Player \<Rightarrow> Team" where
  "createTeam p1 p2 = \<lparr>player1 = p1, player2 = p2\<rparr>"

subsection \<open>Construction\<close>

definition new_court :: "int \<Rightarrow> Court" where
  "new_court i = \<lparr>court_id = i, currentMatch = None, consecutiveWins = 0, currentCourtTeam = None\<rparr>"

definition new_QueueManager :: "int \<Rightarrow> QMError + QueueManager" where
  "new_QueueManager numberOfCourts =
     (if numberOfCourts < 1 then Inl InvalidCourtCountError
      else Inr \<lparr>state = \<lparr>courts = map (\<lambda>i. new_court (int i + 1)) [0 ..< nat numberOfCourts],
                          queue = [], matchHistory = []\<rparr>,
                matchCounter = 0\<rparr>)"

subsection \<open>Accessors for the nested state\<close>

definition set_courts :: "Court list \<Rightarrow> QueueManager \<Rightarrow> QueueManager" where
  "set_courts cs m = m\<lparr>state := (state m)\<lparr>courts := cs\<rparr>\<rparr>"

definition set_queue :: "Team list \<Rightarrow> QueueManager \<Rightarrow> QueueManager" where
  "set_queue q m = m\<lparr>state := (state m)\<lparr>queue := q\<rparr>\<rparr>"

definition set_matchHistory :: "MatchResult list \<Rightarrow> QueueManager \<Rightarrow> QueueManager" where
  "set_matchHistory h m = m\<lparr>state := (state m)\<lparr>matchHistory := h\<rparr>\<rparr>"

text \<open>
  \<^verbatim>\<open>courts.find(c => c.id === courtId)\<close> returns the first court with the id, and the
  method then writes to that object: \<open>update_court\<close> changes the first court with the id.
\<close>

definition find_court :: "int \<Rightarrow> Court list \<Rightarrow> Court option" where
  "find_court cid cs = find (\<lambda>c. court_id c = cid) cs"

fun update_court :: "int \<Rightarrow> (Court \<Rightarrow> Court) \<Rightarrow> Court list \<Rightarrow> Court list" where
  "update_court cid f [] = []"
| "update_court cid f (c # cs) =
     (if court_id c = cid then f c # cs else c # update_court cid f cs)"

subsection \<open>initialize\<close>

text \<open>
  The loop over the courts, with the running \<^verbatim>\<open>teamIndex\<close> and \<^verbatim>\<open>matchCounter\<close>. The
  reads \<^verbatim>\<open>teams[teamIndex++]\<close> are in range: \<open>initialize\<close> has checked the length.
\<close>

definition new_match :: "Team \<Rightarrow> Team \<Rightarrow> int \<Rightarrow> int \<Rightarrow> Match" where
  "new_match t1 t2 n cid =
     \<lparr>team1 = t1, team2 = t2, matchNumber = n, courtId = Some cid, currentScores = None\<rparr>"

fun assign_courts :: "Court list \<Rightarrow> Team list \<Rightarrow> nat \<Rightarrow> int \<Rightarrow> Court list \<times> nat \<times> int" where
  "assign_courts [] teams teamIndex counter = ([], teamIndex, counter)"
| "assign_courts (court # rest) teams teamIndex counter =
     (let t1 = teams ! teamIndex;
          t2 = teams ! (teamIndex + 1);
          court' = court\<lparr>currentMatch := Some (new_match t1 t2 (counter + 1) (court_id court)),
                         consecutiveWins := 0, currentCourtTeam := None\<rparr>;
          (rest', teamIndex', counter') = assign_courts rest teams (teamIndex + 2) (counter + 1)
      in (court' # rest', teamIndex', counter'))"

definition initialize :: "Team list \<Rightarrow> QueueManager \<Rightarrow> Outcome" where
  "initialize teams m =
     (let requiredTeams = length (courts (state m)) * 2
      in if length teams < requiredTeams then Inl (InsufficientTeamsError, m)
         else
           (let (cs, teamIndex, counter) = assign_courts (courts (state m)) teams 0 (matchCounter m)
            in Inr \<lparr>state = \<lparr>courts = cs, queue = drop teamIndex teams, matchHistory = []\<rparr>,
                     matchCounter = counter\<rparr>))"

subsection \<open>recordResult\<close>

text \<open>
  \<^verbatim>\<open>Object.entries(scoreMap).map(([score, team]) => ({ score: Number(score), team }))\<close>, and
  the same array after \<^verbatim>\<open>sort((a, b) => b.score - a.score)\<close>.
\<close>

definition score_entries :: "Team properties \<Rightarrow> Score list" where
  "score_entries scoreMap =
     map (\<lambda>p. \<lparr>team = snd p, score = Number (fst p)\<rparr>) (Object_entries scoreMap)"

definition valid_teams :: "Match \<Rightarrow> Score list \<Rightarrow> bool" where
  "valid_teams cm entries =
     list_all (\<lambda>s. areTeamsEqual (team s) (team1 cm) \<or> areTeamsEqual (team s) (team2 cm)) entries"

definition sorted_scores :: "Team properties \<Rightarrow> Score list" where
  "sorted_scores scoreMap =
     array_sort (\<lambda>a b. sort_order (number_minus (score b) (score a))) (score_entries scoreMap)"

definition match_result :: "nat \<Rightarrow> Court \<Rightarrow> Match \<Rightarrow> Score list \<Rightarrow> MatchResult" where
  "match_result now court cm ranked =
     \<lparr>played = cm, winner = team (ranked ! 0), loser = team (ranked ! 1), timestamp = now,
      result_courtId = Some (court_id court),
      scores = Some (\<lparr>team = team (ranked ! 0), score = score (ranked ! 0)\<rparr>,
                     \<lparr>team = team (ranked ! 1), score = score (ranked ! 1)\<rparr>)\<rparr>"

definition same_team_as_holder :: "Team \<Rightarrow> Court \<Rightarrow> bool" where
  "same_team_as_holder w court =
     (case currentCourtTeam court of None \<Rightarrow> False | Some t \<Rightarrow> areTeamsEqual w t)"

definition update_streak :: "Team \<Rightarrow> Court \<Rightarrow> Court" where
  "update_streak w court =
     (if same_team_as_holder w court
      then court\<lparr>consecutiveWins := consecutiveWins court + 1\<rparr>
      else court\<lparr>consecutiveWins := 1, currentCourtTeam := Some w\<rparr>)"

text \<open>
  The queue rules, on the manager after the result was logged and the streak updated.
  \<open>streak\<close> is the court's counter after the update. Both throws of
  \<^verbatim>\<open>InsufficientTeamsError\<close> are branches here, with the state as it is at the throw.
\<close>

definition apply_queue_rules :: "int \<Rightarrow> int \<Rightarrow> Team \<Rightarrow> Team \<Rightarrow> QueueManager \<Rightarrow> Outcome" where
  "apply_queue_rules cid streak w l m =
     (let q = queue (state m)
      in if streak \<ge> 2 \<and> length q \<ge> 2 then
           (if length q < 2 then Inl (InsufficientTeamsError, m)
            else
              (let nextTeam1 = hd q;
                   nextTeam2 = hd (tl q);
                   q' = tl (tl q) @ [w, l];
                   n = matchCounter m + 1;
                   cs = update_court cid
                          (\<lambda>c. c\<lparr>consecutiveWins := 0, currentCourtTeam := None,
                                  currentMatch := Some (new_match nextTeam1 nextTeam2 n (court_id c))\<rparr>)
                          (courts (state m))
               in Inr (set_courts cs (set_queue q' (m\<lparr>matchCounter := n\<rparr>)))))
         else
           (let q1 = q @ [l]
            in if length q1 < 1 then Inl (InsufficientTeamsError, set_queue q1 m)
               else
                 (let nextOpponent = hd q1;
                      q' = tl q1;
                      n = matchCounter m + 1;
                      cs = update_court cid
                             (\<lambda>c. c\<lparr>currentMatch := Some (new_match w nextOpponent n (court_id c))\<rparr>)
                             (courts (state m))
                  in Inr (set_courts cs (set_queue q' (m\<lparr>matchCounter := n\<rparr>))))))"

definition recordResult :: "nat \<Rightarrow> int \<Rightarrow> Team properties \<Rightarrow> QueueManager \<Rightarrow> Outcome" where
  "recordResult now cid scoreMap m =
     (case find_court cid (courts (state m)) of
        None \<Rightarrow> Inl (CourtNotFoundError, m)
      | Some court \<Rightarrow>
          (case currentMatch court of
             None \<Rightarrow> Inl (NoActiveMatchError, m)
           | Some cm \<Rightarrow>
               (let entries = score_entries scoreMap
                in if length entries \<noteq> 2 then Inl (InvalidMatchResultError, m)
                   else if \<not> valid_teams cm entries then Inl (InvalidMatchResultError, m)
                   else
                     (let ranked = sorted_scores scoreMap;
                          w = team (ranked ! 0);
                          l = team (ranked ! 1);
                          m1 = set_matchHistory
                                 (matchHistory (state m) @ [match_result now court cm ranked]) m;
                          m2 = set_courts (update_court cid (update_streak w) (courts (state m1))) m1
                      in apply_queue_rules cid (consecutiveWins (update_streak w court)) w l m2))))"

subsection \<open>addTeams\<close>

definition court_keys :: "Court \<Rightarrow> string list" where
  "court_keys c =
     (case currentMatch c of None \<Rightarrow> []
      | Some cm \<Rightarrow> [getTeamKey (team1 cm), getTeamKey (team2 cm)])"

definition addTeams :: "Team list \<Rightarrow> QueueManager \<Rightarrow> Outcome" where
  "addTeams teams m =
     (let hasActiveMatch = list_ex (\<lambda>c. currentMatch c \<noteq> None) (courts (state m))
      in if \<not> hasActiveMatch then Inl (NotInitializedError, m)
         else
           (let existingTeamIds =
                  map getTeamKey (queue (state m)) @ concat (map court_keys (courts (state m)));
                newTeams = filter (\<lambda>t. getTeamKey t \<notin> set existingTeamIds) teams
            in Inr (set_queue (queue (state m) @ newTeams) m)))"

subsection \<open>getTeamStatistics\<close>

text \<open>
  \<^verbatim>\<open>statsMap\<close> is a \<^verbatim>\<open>Map\<close> from team keys to statistics objects: an association list
  in the order the keys were first set. \<open>map_init\<close> is the guarded \<^verbatim>\<open>set\<close> of a fresh
  entry; \<open>map_modify\<close> is a write to a field of the object that \<^verbatim>\<open>get\<close> returned, which
  changes the entry in place (the winner's and the loser's object are the same one when
  their keys are equal).
\<close>

type_synonym StatsMap = "(string \<times> TeamStatistics) list"

definition fresh_statistics :: "Team \<Rightarrow> TeamStatistics" where
  "fresh_statistics t =
     \<lparr>stat_team = t, wins = 0, losses = 0, totalPoints = Finite 0, pointsAgainst = Finite 0\<rparr>"

definition map_has :: "string \<Rightarrow> StatsMap \<Rightarrow> bool" where
  "map_has k mp = (k \<in> set (map fst mp))"

definition map_init :: "string \<Rightarrow> TeamStatistics \<Rightarrow> StatsMap \<Rightarrow> StatsMap" where
  "map_init k v mp = (if map_has k mp then mp else mp @ [(k, v)])"

fun map_modify :: "string \<Rightarrow> (TeamStatistics \<Rightarrow> TeamStatistics) \<Rightarrow> StatsMap \<Rightarrow> StatsMap" where
  "map_modify k f [] = []"
| "map_modify k f (p # mp) = (if fst p = k then (fst p, f (snd p)) # mp else p # map_modify k f mp)"

text \<open>\<^verbatim>\<open>result.scores.find(s => areTeamsEqual(s.team, t))\<close>, on the pair of scores.\<close>

definition find_score :: "(Score \<times> Score) \<Rightarrow> Team \<Rightarrow> Score option" where
  "find_score sc t = find (\<lambda>s. areTeamsEqual (team s) t) [fst sc, snd sc]"

text \<open>
  The points a result credits: the winner's and the loser's score as the two \<^verbatim>\<open>find\<close>
  calls return them, or nothing when the result has no scores or a \<^verbatim>\<open>find\<close> fails.
\<close>

definition credited_points :: "MatchResult \<Rightarrow> (number \<times> number) option" where
  "credited_points r =
     (case scores r of None \<Rightarrow> None
      | Some sc \<Rightarrow>
          (case find_score sc (winner r) of None \<Rightarrow> None
           | Some winnerScore \<Rightarrow>
               (case find_score sc (loser r) of None \<Rightarrow> None
                | Some loserScore \<Rightarrow> Some (score winnerScore, score loserScore))))"

definition add_result :: "MatchResult \<Rightarrow> StatsMap \<Rightarrow> StatsMap" where
  "add_result r mp =
     (let winnerKey = getTeamKey (winner r);
          loserKey = getTeamKey (loser r);
          mp1 = map_init winnerKey (fresh_statistics (winner r)) mp;
          mp2 = map_init loserKey (fresh_statistics (loser r)) mp1;
          mp3 = map_modify winnerKey (\<lambda>s. s\<lparr>wins := wins s + 1\<rparr>) mp2;
          mp4 = map_modify loserKey (\<lambda>s. s\<lparr>losses := losses s + 1\<rparr>) mp3
      in case credited_points r of
           None \<Rightarrow> mp4
         | Some pts \<Rightarrow>
             (let mp5 = map_modify winnerKey
                          (\<lambda>s. s\<lparr>totalPoints := number_plus (totalPoints s) (fst pts)\<rparr>) mp4;
                  mp6 = map_modify winnerKey
                          (\<lambda>s. s\<lparr>pointsAgainst := number_plus (pointsAgainst s) (snd pts)\<rparr>) mp5;
                  mp7 = map_modify loserKey
                          (\<lambda>s. s\<lparr>totalPoints := number_plus (totalPoints s) (snd pts)\<rparr>) mp6
              in map_modify loserKey
                   (\<lambda>s. s\<lparr>pointsAgainst := number_plus (pointsAgainst s) (fst pts)\<rparr>) mp7))"

definition stats_compare :: "TeamStatistics \<Rightarrow> TeamStatistics \<Rightarrow> int" where
  "stats_compare a b =
     (if wins b \<noteq> wins a then wins b - wins a
      else sort_order (number_minus (totalPoints b) (totalPoints a)))"

definition getTeamStatistics :: "QueueManager \<Rightarrow> TeamStatistics list" where
  "getTeamStatistics m =
     array_sort stats_compare (map snd (fold add_result (matchHistory (state m)) []))"

definition getSessionWinner :: "QueueManager \<Rightarrow> TeamStatistics option" where
  "getSessionWinner m = (case getTeamStatistics m of [] \<Rightarrow> None | s # _ \<Rightarrow> Some s)"



subsection \<open>What the match log says about a team\<close>

text \<open>
  The tallies of one team key, read off the log itself: the number of results it won and
  the number it lost; its points, which are the winner's logged score in the results it won
  and the loser's logged score in those it lost; and the points against it, which are the
  other logged score. A result lists the winner's score first and the loser's second. These
  definitions follow the words of the specification, not the code of
  \<^verbatim>\<open>getTeamStatistics\<close>.
\<close>

definition is_finite :: "number \<Rightarrow> bool" where
  "is_finite v = (case v of Finite x \<Rightarrow> True | _ \<Rightarrow> False)"











text \<open>
  A result is well recorded when its winner and its loser are the two teams of the match
  that was played, in one order or the other, and different teams, and when its scores are
  the winner's and then the loser's, both finite numbers.
\<close>

definition well_recorded :: "MatchResult \<Rightarrow> bool" where
  "well_recorded r =
     (case scores r of None \<Rightarrow> False
      | Some sc \<Rightarrow>
          areTeamsEqual (team (fst sc)) (winner r) \<and> areTeamsEqual (team (snd sc)) (loser r) \<and>
          is_finite (score (fst sc)) \<and> is_finite (score (snd sc)) \<and>
          \<not> areTeamsEqual (winner r) (loser r) \<and>
          ((areTeamsEqual (winner r) (team1 (played r)) \<and> areTeamsEqual (loser r) (team2 (played r))) \<or>
           (areTeamsEqual (winner r) (team2 (played r)) \<and> areTeamsEqual (loser r) (team1 (played r)))))"

subsection \<open>The teams in play\<close>

text \<open>
  The teams on the courts, court by court, followed by the queue; their identities are the
  keys of \<open>getTeamKey\<close>, as a multiset.
\<close>

definition court_teams :: "Court \<Rightarrow> Team list" where
  "court_teams c = (case currentMatch c of None \<Rightarrow> [] | Some cm \<Rightarrow> [team1 cm, team2 cm])"

definition teams_in_play :: "QueueManager \<Rightarrow> Team list" where
  "teams_in_play m = concat (map court_teams (courts (state m))) @ queue (state m)"

definition identities :: "QueueManager \<Rightarrow> string multiset" where
  "identities m = mset (map getTeamKey (teams_in_play m))"

section \<open>Undo and redo, live scores, and the other tracked mutations\<close>

text \<open>
  Modelled from the spec: the undo and redo stacks of the engine, the history snapshot,
  \<^verbatim>\<open>updateScore\<close>, \<^verbatim>\<open>reorderTeamInQueue\<close> and \<^verbatim>\<open>editMatchResult\<close>. The engine under
  \<^verbatim>\<open>src/\<close> is the one before these were added (its \<^verbatim>\<open>addTeams\<close> and \<^verbatim>\<open>recordResult\<close> take
  no snapshot); of the later engine only the tests are there. The definitions follow
  sections 3 and 4.4 to 4.7 of the spec. A snapshot is a copy of the courts without their
  live scores, the queue, the match log and the match counter, that is a manager whose
  matches have no \<^verbatim>\<open>currentScores\<close>. A stack has its most recent entry last and its oldest
  first.
\<close>

record Engine =
  manager :: QueueManager
  undoStack :: "QueueManager list"
  redoStack :: "QueueManager list"
  maxHistorySize :: nat

type_synonym EngineOutcome = "(QMError \<times> Engine) + Engine"

text \<open>Modelled from the spec: a new engine has empty stacks (the tests give the cap 20 by default).\<close>

definition new_Engine :: "QueueManager \<Rightarrow> nat \<Rightarrow> Engine" where
  "new_Engine m cap = \<lparr>manager = m, undoStack = [], redoStack = [], maxHistorySize = cap\<rparr>"

text \<open>Modelled from the spec: the snapshot leaves the live scores of every court out.\<close>

definition without_live_scores :: "Court \<Rightarrow> Court" where
  "without_live_scores c =
     (case currentMatch c of None \<Rightarrow> c
      | Some cm \<Rightarrow> c\<lparr>currentMatch := Some (cm\<lparr>currentScores := None\<rparr>)\<rparr>)"

definition createSnapshot :: "QueueManager \<Rightarrow> QueueManager" where
  "createSnapshot m = set_courts (map without_live_scores (courts (state m))) m"

text \<open>
  Modelled from the spec: a push onto a stack evicts the oldest entry once the stack
  exceeds its maximum depth.
\<close>

definition push_bounded :: "nat \<Rightarrow> 'a \<Rightarrow> 'a list \<Rightarrow> 'a list" where
  "push_bounded cap x xs = (if length (xs @ [x]) > cap then tl (xs @ [x]) else xs @ [x])"

text \<open>
  Modelled from the spec: a tracked mutation puts the snapshot of the state before it on
  the undo stack and clears the redo stack; a call that fails leaves the engine unchanged.
\<close>

definition saveSnapshot :: "Engine \<Rightarrow> Engine" where
  "saveSnapshot e =
     e\<lparr>undoStack := push_bounded (maxHistorySize e) (createSnapshot (manager e)) (undoStack e),
       redoStack := []\<rparr>"

definition tracked :: "(QueueManager \<Rightarrow> Outcome) \<Rightarrow> Engine \<Rightarrow> EngineOutcome" where
  "tracked mutation e =
     (case mutation (manager e) of
        Inl failure \<Rightarrow> Inl (fst failure, e)
      | Inr m' \<Rightarrow> Inr ((saveSnapshot e)\<lparr>manager := m'\<rparr>))"

text \<open>
  Modelled from the spec: \<^verbatim>\<open>undo\<close> returns failure on an empty undo stack; otherwise it
  pops the most recent snapshot, pushes the current state onto the redo stack and makes the
  popped snapshot the current state. \<^verbatim>\<open>redo\<close> is symmetric.
\<close>

definition undo :: "Engine \<Rightarrow> bool \<times> Engine" where
  "undo e =
     (if undoStack e = [] then (False, e)
      else (True, e\<lparr>manager := last (undoStack e),
                     undoStack := butlast (undoStack e),
                     redoStack := push_bounded (maxHistorySize e) (createSnapshot (manager e))
                                    (redoStack e)\<rparr>))"

definition redo :: "Engine \<Rightarrow> bool \<times> Engine" where
  "redo e =
     (if redoStack e = [] then (False, e)
      else (True, e\<lparr>manager := last (redoStack e),
                     redoStack := butlast (redoStack e),
                     undoStack := push_bounded (maxHistorySize e) (createSnapshot (manager e))
                                    (undoStack e)\<rparr>))"

text \<open>Modelled from the spec: the depth queries are the sizes of the two stacks.\<close>

definition getUndoDepth :: "Engine \<Rightarrow> nat" where
  "getUndoDepth e = length (undoStack e)"

definition getRedoDepth :: "Engine \<Rightarrow> nat" where
  "getRedoDepth e = length (redoStack e)"

text \<open>
  Modelled from the spec: \<^verbatim>\<open>updateScore(courtId, team, delta)\<close> (section 4.4). The first
  touch sets both live scores to zero; the addressed score changes by \<open>delta\<close> and never
  goes below zero. It is not a tracked mutation.
\<close>

datatype TeamSlot = FirstTeam | SecondTeam

definition updateScore :: "int \<Rightarrow> TeamSlot \<Rightarrow> int \<Rightarrow> QueueManager \<Rightarrow> Outcome" where
  "updateScore cid slot delta m =
     (case find_court cid (courts (state m)) of
        None \<Rightarrow> Inl (CourtNotFoundError, m)
      | Some court \<Rightarrow>
          (case currentMatch court of
             None \<Rightarrow> Inl (NoActiveMatchError, m)
           | Some cm \<Rightarrow>
               (let live = (case currentScores cm of None \<Rightarrow> (0, 0) | Some s \<Rightarrow> s);
                    live' = (case slot of
                               FirstTeam \<Rightarrow> (max 0 (fst live + delta), snd live)
                             | SecondTeam \<Rightarrow> (fst live, max 0 (snd live + delta)))
                in Inr (set_courts
                          (update_court cid
                             (\<lambda>c. c\<lparr>currentMatch := Some (cm\<lparr>currentScores := Some live'\<rparr>)\<rparr>)
                             (courts (state m))) m))))"

text \<open>
  Modelled from the spec: \<^verbatim>\<open>reorderTeamInQueue(fromIndex, toIndex)\<close> (section 4.5): remove
  the team at \<open>fromIndex\<close>, insert it at \<open>toIndex\<close> of the shortened queue.
\<close>

definition reorderTeamInQueue :: "int \<Rightarrow> int \<Rightarrow> QueueManager \<Rightarrow> Outcome" where
  "reorderTeamInQueue fromIndex toIndex m =
     (let q = queue (state m)
      in if \<not> list_ex (\<lambda>c. currentMatch c \<noteq> None) (courts (state m))
         then Inl (NotInitializedError, m)
         else if fromIndex < 0 \<or> int (length q) \<le> fromIndex \<or> toIndex < 0 \<or> int (length q) \<le> toIndex
         then Inl (InvalidQueueIndexError, m)
         else
           (let t = q ! nat fromIndex;
                shortened = take (nat fromIndex) q @ drop (nat fromIndex + 1) q
            in Inr (set_queue (take (nat toIndex) shortened @ [t] @ drop (nat toIndex) shortened) m)))"

text \<open>
  Modelled from the spec: \<^verbatim>\<open>editMatchResult(matchIndex, newScores)\<close> (section 4.6), with
  \<open>newScores\<close> a list of scores: it must name the two teams of the logged match and be no
  tie; the entry's winner, loser and scores are rewritten.
\<close>

definition names_both :: "Match \<Rightarrow> Score \<Rightarrow> Score \<Rightarrow> bool" where
  "names_both cm a b =
     ((areTeamsEqual (team a) (team1 cm) \<and> areTeamsEqual (team b) (team2 cm)) \<or>
      (areTeamsEqual (team a) (team2 cm) \<and> areTeamsEqual (team b) (team1 cm)))"

definition editMatchResult :: "int \<Rightarrow> Score list \<Rightarrow> QueueManager \<Rightarrow> Outcome" where
  "editMatchResult matchIndex newScores m =
     (let hist = matchHistory (state m)
      in if matchIndex < 0 \<or> int (length hist) \<le> matchIndex then Inl (InvalidMatchIndexError, m)
         else
           (case newScores of
              [a, b] \<Rightarrow>
                (let r = hist ! nat matchIndex
                 in if names_both (played r) a b \<and> score a \<noteq> score b
                    then
                      (let hi = (if number_less (score b) (score a) then a else b);
                           lo = (if number_less (score b) (score a) then b else a)
                       in Inr (set_matchHistory
                                 (hist [nat matchIndex :=
                                    r\<lparr>winner := team hi, loser := team lo, scores := Some (hi, lo)\<rparr>])
                                 m))
                    else Inl (InvalidMatchResultError, m))
            | _ \<Rightarrow> Inl (InvalidMatchResultError, m)))"

section \<open>Observing a call, and example sessions\<close>

text \<open>
  \<open>and_then\<close> runs the next call on the manager a call returned; a throw ends the
  sequence. \<open>manager_of\<close> is the manager a call left behind, returned or thrown.
\<close>

definition and_then :: "Outcome \<Rightarrow> (QueueManager \<Rightarrow> Outcome) \<Rightarrow> Outcome" where
  "and_then r f = (case r of Inl e \<Rightarrow> Inl e | Inr m \<Rightarrow> f m)"

definition manager_of :: "Outcome \<Rightarrow> QueueManager" where
  "manager_of r = (case r of Inl e \<Rightarrow> snd e | Inr m \<Rightarrow> m)"

definition thrown :: "Outcome \<Rightarrow> QMError option" where
  "thrown r = (case r of Inl e \<Rightarrow> Some (fst e) | Inr m \<Rightarrow> None)"

definition queue_after :: "Outcome \<Rightarrow> Team list option" where
  "queue_after r = (case r of Inl e \<Rightarrow> None | Inr m \<Rightarrow> Some (queue (state m)))"

definition match_after :: "int \<Rightarrow> Outcome \<Rightarrow> (Team \<times> Team) option" where
  "match_after cid r =
     (case r of Inl e \<Rightarrow> None
      | Inr m \<Rightarrow>
          (case find_court cid (courts (state m)) of None \<Rightarrow> None
           | Some c \<Rightarrow> (case currentMatch c of None \<Rightarrow> None | Some cm \<Rightarrow> Some (team1 cm, team2 cm))))"

definition streak_after_call :: "int \<Rightarrow> Outcome \<Rightarrow> (int \<times> Team option) option" where
  "streak_after_call cid r =
     (case r of Inl e \<Rightarrow> None
      | Inr m \<Rightarrow>
          (case find_court cid (courts (state m)) of None \<Rightarrow> None
           | Some c \<Rightarrow> Some (consecutiveWins c, currentCourtTeam c)))"

text \<open>The teams of the test suite, and sessions on one court.\<close>

definition team_A :: Team where
  "team_A = createTeam (createPlayer 1 ''Alice'') (createPlayer 2 ''Bob'')"

definition team_B :: Team where
  "team_B = createTeam (createPlayer 3 ''Charlie'') (createPlayer 4 ''Diana'')"

definition team_C :: Team where
  "team_C = createTeam (createPlayer 5 ''Eve'') (createPlayer 6 ''Frank'')"

definition team_D :: Team where
  "team_D = createTeam (createPlayer 7 ''Grace'') (createPlayer 8 ''Henry'')"

definition one_court :: QueueManager where
  "one_court = \<lparr>state = \<lparr>courts = [new_court 1], queue = [], matchHistory = []\<rparr>, matchCounter = 0\<rparr>"

definition four_teams :: Outcome where
  "four_teams = initialize [team_A, team_B, team_C, team_D] one_court"

definition four_teams_first_win :: Outcome where
  "four_teams_first_win = and_then four_teams (recordResult 0 1 [(''15'', team_A), (''12'', team_B)])"

definition four_teams_second_win :: Outcome where
  "four_teams_second_win = and_then four_teams_first_win (recordResult 1 1 [(''15'', team_A), (''10'', team_C)])"

definition three_teams :: Outcome where
  "three_teams = initialize [team_A, team_B, team_C] one_court"


text \<open>
  An engine on the three-team session after \<^verbatim>\<open>updateScore(1, 1, 10)\<close>, and the same engine
  after the tracked \<^verbatim>\<open>addTeams\<close> of a fourth team.
\<close>

definition engine_of :: "EngineOutcome \<Rightarrow> Engine" where
  "engine_of r = (case r of Inl e \<Rightarrow> snd e | Inr e \<Rightarrow> e)"

definition live_engine :: Engine where
  "live_engine = new_Engine (manager_of (and_then three_teams (updateScore 1 FirstTeam 10))) 20"

definition live_engine_added :: Engine where
  "live_engine_added = engine_of (tracked (addTeams [team_D]) live_engine)"

definition live_scores_of :: "int \<Rightarrow> QueueManager \<Rightarrow> (int \<times> int) option" where
  "live_scores_of cid m =
     (case find_court cid (courts (state m)) of None \<Rightarrow> None
      | Some c \<Rightarrow> (case currentMatch c of None \<Rightarrow> None | Some cm \<Rightarrow> currentScores cm))"

text \<open>Engines after one tracked mutation of each of the other three kinds.\<close>

definition recorded_engine :: Engine where
  "recorded_engine =
     engine_of (tracked (recordResult 0 1 [(''15'', team_A), (''10'', team_B)])
                  (new_Engine (manager_of three_teams) 20))"

definition reordered_engine :: Engine where
  "reordered_engine =
     engine_of (tracked (reorderTeamInQueue 1 0) (new_Engine (manager_of four_teams) 20))"

definition edited_engine :: Engine where
  "edited_engine =
     engine_of (tracked (editMatchResult 0 [\<lparr>team = team_B, score = Finite 21\<rparr>,
                                            \<lparr>team = team_A, score = Finite 19\<rparr>])
                  (new_Engine (manager_of four_teams_first_win) 20))"

section \<open>Properties of the engine\<close>

subsection \<open>Courts\<close>

lemma update_court_found:
  "find_court cid cs = Some court \<Longrightarrow> update_court cid f cs = update_court cid (\<lambda>_. f court) cs"
  by (induction cs) (auto simp: find_court_def)

lemma update_court_twice:
  "(\<And>c. court_id (f c) = court_id c) \<Longrightarrow>
   update_court cid g (update_court cid f cs) = update_court cid (\<lambda>c. g (f c)) cs"
  by (induction cs) auto

lemma court_id_update_streak [simp]: "court_id (update_streak w c) = court_id c"
  by (simp add: update_streak_def)

lemma find_court_id: "find_court cid cs = Some court \<Longrightarrow> court_id court = cid"
  by (induction cs) (auto simp: find_court_def split: if_splits)

lemma apply_queue_rules_returns: "\<exists>m'. apply_queue_rules cid streak w l m = Inr m'"
  by (simp add: apply_queue_rules_def Let_def)

subsection \<open>The two paths of recordResult\<close>

lemma array_sort_two:
  "array_sort cmp [a, b] = (if cmp a b \<le> 0 then [a, b] else [b, a])"
  by (simp add: array_sort_def)

lemma length_insert_by [simp]: "length (insert_by cmp x xs) = Suc (length xs)"
  by (induction xs) auto

lemma length_array_sort [simp]: "length (array_sort cmp xs) = length xs"
  by (induction xs) (auto simp: array_sort_def)

lemma update_after_streak:
  assumes "find_court cid cs = Some court"
  shows "update_court cid g (update_court cid (update_streak w) cs)
         = update_court cid (\<lambda>_. g (update_streak w court)) cs"
proof -
  have "update_court cid g (update_court cid (update_streak w) cs)
        = update_court cid (\<lambda>c. g (update_streak w c)) cs"
    by (simp add: update_court_twice)
  also have "\<dots> = update_court cid (\<lambda>_. g (update_streak w court)) cs"
    using assms by (rule update_court_found)
  finally show ?thesis .
qed

lemma apply_queue_rules_single:
  assumes "\<not> (streak \<ge> 2 \<and> length (queue (state m)) \<ge> 2)"
  shows "apply_queue_rules cid streak w l m =
     Inr \<lparr>state =
            \<lparr>courts = update_court cid
                 (\<lambda>c. c\<lparr>currentMatch :=
                          Some (new_match w (hd (queue (state m) @ [l])) (matchCounter m + 1) (court_id c))\<rparr>)
                 (courts (state m)),
             queue = tl (queue (state m) @ [l]),
             matchHistory = matchHistory (state m)\<rparr>,
          matchCounter = matchCounter m + 1\<rparr>"
proof -
  have "apply_queue_rules cid streak w l m =
     Inr (set_courts (update_court cid
                 (\<lambda>c. c\<lparr>currentMatch :=
                          Some (new_match w (hd (queue (state m) @ [l])) (matchCounter m + 1) (court_id c))\<rparr>)
                 (courts (state m)))
           (set_queue (tl (queue (state m) @ [l])) (m\<lparr>matchCounter := matchCounter m + 1\<rparr>)))"
    using assms unfolding apply_queue_rules_def Let_def by auto
  also have "\<dots> = Inr \<lparr>state =
            \<lparr>courts = update_court cid
                 (\<lambda>c. c\<lparr>currentMatch :=
                          Some (new_match w (hd (queue (state m) @ [l])) (matchCounter m + 1) (court_id c))\<rparr>)
                 (courts (state m)),
             queue = tl (queue (state m) @ [l]),
             matchHistory = matchHistory (state m)\<rparr>,
          matchCounter = matchCounter m + 1\<rparr>"
    by (cases m, cases "state m") (simp add: set_courts_def set_queue_def)
  finally show ?thesis .
qed

lemma apply_queue_rules_double:
  assumes "streak \<ge> 2" "length (queue (state m)) \<ge> 2"
  shows "apply_queue_rules cid streak w l m =
     Inr \<lparr>state =
            \<lparr>courts = update_court cid
                 (\<lambda>c. c\<lparr>consecutiveWins := 0, currentCourtTeam := None,
                        currentMatch :=
                          Some (new_match (queue (state m) ! 0) (queue (state m) ! 1)
                                  (matchCounter m + 1) (court_id c))\<rparr>)
                 (courts (state m)),
             queue = drop 2 (queue (state m)) @ [w, l],
             matchHistory = matchHistory (state m)\<rparr>,
          matchCounter = matchCounter m + 1\<rparr>"
proof -
  let ?q = "queue (state m)"
  obtain a b rest where q: "?q = a # b # rest"
    using assms(2) by (cases ?q; cases "tl ?q") auto
  have front: "hd ?q = ?q ! 0" "hd (tl ?q) = ?q ! 1" "tl (tl ?q) = drop 2 ?q"
    by (simp_all add: q)
  have "apply_queue_rules cid streak w l m =
     Inr (set_courts (update_court cid
                 (\<lambda>c. c\<lparr>consecutiveWins := 0, currentCourtTeam := None,
                        currentMatch :=
                          Some (new_match (?q ! 0) (?q ! 1) (matchCounter m + 1) (court_id c))\<rparr>)
                 (courts (state m)))
           (set_queue (drop 2 ?q @ [w, l]) (m\<lparr>matchCounter := matchCounter m + 1\<rparr>)))"
    using assms unfolding apply_queue_rules_def Let_def front by auto
  also have "\<dots> = Inr \<lparr>state =
            \<lparr>courts = update_court cid
                 (\<lambda>c. c\<lparr>consecutiveWins := 0, currentCourtTeam := None,
                        currentMatch :=
                          Some (new_match (?q ! 0) (?q ! 1) (matchCounter m + 1) (court_id c))\<rparr>)
                 (courts (state m)),
             queue = drop 2 ?q @ [w, l],
             matchHistory = matchHistory (state m)\<rparr>,
          matchCounter = matchCounter m + 1\<rparr>"
    by (cases m, cases "state m") (simp add: set_courts_def set_queue_def)
  finally show ?thesis .
qed

lemma recordResult_valid:
  assumes "find_court cid (courts (state m)) = Some court"
    and "currentMatch court = Some cm"
    and "length (score_entries sm) = 2"
    and "valid_teams cm (score_entries sm)"
  shows "recordResult now cid sm m =
     apply_queue_rules cid (consecutiveWins (update_streak (team (sorted_scores sm ! 0)) court))
       (team (sorted_scores sm ! 0)) (team (sorted_scores sm ! 1))
       \<lparr>state =
          \<lparr>courts = update_court cid (update_streak (team (sorted_scores sm ! 0))) (courts (state m)),
           queue = queue (state m),
           matchHistory = matchHistory (state m) @ [match_result now court cm (sorted_scores sm)]\<rparr>,
        matchCounter = matchCounter m\<rparr>"
proof -
  have "set_courts (update_court cid (update_streak (team (sorted_scores sm ! 0)))
            (courts (state (set_matchHistory
               (matchHistory (state m) @ [match_result now court cm (sorted_scores sm)]) m))))
          (set_matchHistory (matchHistory (state m) @ [match_result now court cm (sorted_scores sm)]) m)
        = \<lparr>state =
          \<lparr>courts = update_court cid (update_streak (team (sorted_scores sm ! 0))) (courts (state m)),
           queue = queue (state m),
           matchHistory = matchHistory (state m) @ [match_result now court cm (sorted_scores sm)]\<rparr>,
        matchCounter = matchCounter m\<rparr>"
    by (cases m, cases "state m") (simp add: set_courts_def set_matchHistory_def)
  then show ?thesis
    using assms by (simp add: recordResult_def Let_def)
qed

lemma streak_after:
  "consecutiveWins (update_streak w court)
   = (if same_team_as_holder w court then consecutiveWins court + 1 else 1)"
  by (simp add: update_streak_def)


text \<open>
  C2. A valid call whose streak after the update is at least 2 while the queue holds at least
  two teams returns: the queue lost its first two teams, which are the court's new match, and
  gained the winner and then the loser at its back; the court's streak is 0 and it has no
  streak holder.
\<close>

theorem recordResult_double_win:
  assumes court: "find_court cid (courts (state m)) = Some court"
    and cm: "currentMatch court = Some cm"
    and two: "length (score_entries sm) = 2"
    and valid: "valid_teams cm (score_entries sm)"
    and w: "w = team (sorted_scores sm ! 0)"
    and l: "l = team (sorted_scores sm ! 1)"
    and streak: "streak = (if same_team_as_holder w court then consecutiveWins court + 1 else 1)"
    and path: "streak \<ge> 2" "length (queue (state m)) \<ge> 2"
  shows "recordResult now cid sm m =
     Inr \<lparr>state =
            \<lparr>courts = update_court cid
                 (\<lambda>_. court\<lparr>consecutiveWins := 0, currentCourtTeam := None,
                          currentMatch :=
                            Some (new_match (queue (state m) ! 0) (queue (state m) ! 1)
                                    (matchCounter m + 1) cid)\<rparr>)
                 (courts (state m)),
             queue = drop 2 (queue (state m)) @ [w, l],
             matchHistory = matchHistory (state m) @ [match_result now court cm (sorted_scores sm)]\<rparr>,
          matchCounter = matchCounter m + 1\<rparr>"
proof -
  have s: "consecutiveWins (update_streak w court) = streak"
    by (simp add: streak_after streak)
  have cid: "court_id court = cid"
    using court by (rule find_court_id)
  have court': "\<And>x. update_streak w court\<lparr>consecutiveWins := 0, currentCourtTeam := None, currentMatch := x\<rparr>
     = court\<lparr>consecutiveWins := 0, currentCourtTeam := None, currentMatch := x\<rparr>"
    by (cases court) (simp add: update_streak_def)
  show ?thesis
    unfolding recordResult_valid [OF court cm two valid] w [symmetric] l [symmetric] s
    by (simp add: apply_queue_rules_double path update_after_streak [OF court] cid court')
qed

theorem recordResult_double_win_witness:
  "queue_after (recordResult 1 1 [(''15'', team_A), (''10'', team_C)] (manager_of four_teams_first_win))
     = Some [team_A, team_C] \<and>
   match_after 1 (recordResult 1 1 [(''15'', team_A), (''10'', team_C)] (manager_of four_teams_first_win))
     = Some (team_D, team_B) \<and>
   streak_after_call 1 (recordResult 1 1 [(''15'', team_A), (''10'', team_C)] (manager_of four_teams_first_win))
     = Some (0, None)"
proof -
  let ?m = "manager_of four_teams_first_win"
  let ?c = "hd (courts (state ?m))"
  have h1: "find_court 1 (courts (state ?m)) = Some ?c" by code_simp
  have h2: "currentMatch ?c = Some (new_match team_A team_C 2 1)" by code_simp
  have h3: "length (score_entries [(''15'', team_A), (''10'', team_C)]) = 2" by code_simp
  have h4: "valid_teams (new_match team_A team_C 2 1) (score_entries [(''15'', team_A), (''10'', team_C)])"
    by code_simp
  have h5: "team_A = team (sorted_scores [(''15'', team_A), (''10'', team_C)] ! 0)" by code_simp
  have h6: "team_C = team (sorted_scores [(''15'', team_A), (''10'', team_C)] ! 1)" by code_simp
  have h7: "(2::int) = (if same_team_as_holder team_A ?c then consecutiveWins ?c + 1 else 1)"
    by code_simp
  have h8: "(2::int) \<ge> 2" by simp
  have h9: "length (queue (state ?m)) \<ge> 2" by code_simp
  note second = recordResult_double_win [OF h1 h2 h3 h4 h5 h6 h7 h8 h9, of 1]
  show ?thesis
    unfolding second by code_simp
qed

subsection \<open>The four-team scenario\<close>

lemma one_court_constructed: "new_QueueManager 1 = Inr one_court"
  by code_simp

text \<open>
  C5, as stated, does not hold: after the first win the team pulled onto the court has left
  the queue, and after the second win the two teams pulled onto the court have left it too.
\<close>

theorem scenario_four_teams_counterexample:
  "\<not> (queue_after four_teams_first_win = Some [team_C, team_D, team_B] \<and>
      match_after 1 four_teams_first_win = Some (team_A, team_C) \<and>
      queue_after four_teams_second_win = Some [team_D, team_B, team_A, team_C] \<and>
      match_after 1 four_teams_second_win = Some (team_D, team_B))"
  by code_simp

text \<open>
  C5, amended. One court, teams A, B, C, D in that order: the court plays A against B and
  the queue is C, D. After A beats B 15-12 the queue is D, B and the court plays A
  against C. After A beats C 15-10 the queue is A, C and the court plays D against B.
\<close>

theorem scenario_four_teams:
  "new_QueueManager 1 = Inr one_court \<and>
   queue_after four_teams = Some [team_C, team_D] \<and>
   match_after 1 four_teams = Some (team_A, team_B) \<and>
   queue_after four_teams_first_win = Some [team_D, team_B] \<and>
   match_after 1 four_teams_first_win = Some (team_A, team_C) \<and>
   queue_after four_teams_second_win = Some [team_A, team_C] \<and>
   match_after 1 four_teams_second_win = Some (team_D, team_B)"
  by code_simp


subsection \<open>initialize\<close>

lemma assign_courts_length:
  "length (fst (assign_courts cs teams i n)) = length cs"
  by (induction cs arbitrary: i n) (simp_all add: Let_def case_prod_beta)

lemma assign_courts_index:
  "fst (snd (assign_courts cs teams i n)) = i + 2 * length cs"
  by (induction cs arbitrary: i n) (simp_all add: Let_def case_prod_beta)

lemma assign_courts_counter:
  "snd (snd (assign_courts cs teams i n)) = n + int (length cs)"
  by (induction cs arbitrary: i n) (simp_all add: Let_def case_prod_beta)

lemma assign_courts_nth:
  "k < length cs \<Longrightarrow>
   fst (assign_courts cs teams i n) ! k =
     (cs ! k)\<lparr>currentMatch :=
          Some (new_match (teams ! (i + 2 * k)) (teams ! (i + 2 * k + 1)) (n + int k + 1)
                  (court_id (cs ! k))),
        consecutiveWins := 0, currentCourtTeam := None\<rparr>"
proof (induction cs arbitrary: i n k)
  case Nil
  then show ?case by simp
next
  case (Cons c cs)
  show ?case
  proof (cases k)
    case 0
    then show ?thesis by (simp add: Let_def case_prod_beta)
  next
    case (Suc j)
    with Cons.prems have "j < length cs" by simp
    from Cons.IH [OF this, of "i + 2" "n + 1"] Suc show ?thesis
      by (simp add: Let_def case_prod_beta add.commute add.left_commute)
  qed
qed


lemma initialize_returns:
  assumes "2 * length (courts (state m)) \<le> length teams"
  shows "initialize teams m =
     Inr \<lparr>state = \<lparr>courts = fst (assign_courts (courts (state m)) teams 0 (matchCounter m)),
                     queue = drop (2 * length (courts (state m))) teams,
                     matchHistory = []\<rparr>,
          matchCounter = matchCounter m + int (length (courts (state m)))\<rparr>"
  using assms
  by (simp add: initialize_def Let_def case_prod_beta assign_courts_index assign_courts_counter
      mult.commute)

text \<open>
  C3, amended. With fewer than twice as many teams as courts, \<open>initialize\<close> throws
  \<^verbatim>\<open>InsufficientTeamsError\<close> and leaves the manager as it was. Otherwise it returns: court
  number \<open>k\<close> (from 0) plays the teams at positions \<open>2k\<close> and \<open>2k + 1\<close> of the input in a
  fresh match numbered \<open>k + 1\<close> above the old counter, with streak 0 and no holder; the
  queue is the rest of the input in order, so that its length plus twice the number of
  courts is the number of teams; the match log is empty. The two teams of every court are
  different identities when the two input teams of every such pair are.
\<close>

theorem initialize_result:
  "(length teams < 2 * length (courts (state m)) \<longrightarrow>
      initialize teams m = Inl (InsufficientTeamsError, m)) \<and>
   (2 * length (courts (state m)) \<le> length teams \<longrightarrow>
      (\<exists>m'. initialize teams m = Inr m' \<and>
         length (courts (state m')) = length (courts (state m)) \<and>
         (\<forall>k < length (courts (state m)).
            courts (state m') ! k =
              (courts (state m) ! k)
                \<lparr>currentMatch :=
                   Some (new_match (teams ! (2 * k)) (teams ! (2 * k + 1))
                           (matchCounter m + int k + 1) (court_id (courts (state m) ! k))),
                 consecutiveWins := 0, currentCourtTeam := None\<rparr>) \<and>
         queue (state m') = drop (2 * length (courts (state m))) teams \<and>
         length (queue (state m')) + 2 * length (courts (state m)) = length teams \<and>
         matchHistory (state m') = [] \<and>
         matchCounter m' = matchCounter m + int (length (courts (state m))) \<and>
         ((\<forall>k < length (courts (state m)).
              \<not> areTeamsEqual (teams ! (2 * k)) (teams ! (2 * k + 1))) \<longrightarrow>
          (\<forall>k < length (courts (state m)).
              \<exists>cm. currentMatch (courts (state m') ! k) = Some cm \<and>
                   \<not> areTeamsEqual (team1 cm) (team2 cm)))))"
proof (intro conjI impI)
  assume "length teams < 2 * length (courts (state m))"
  then show "initialize teams m = Inl (InsufficientTeamsError, m)"
    by (simp add: initialize_def Let_def mult.commute)
next
  let ?cs = "courts (state m)"
  let ?m' = "\<lparr>state = \<lparr>courts = fst (assign_courts ?cs teams 0 (matchCounter m)),
                     queue = drop (2 * length ?cs) teams, matchHistory = []\<rparr>,
            matchCounter = matchCounter m + int (length ?cs)\<rparr>"
  assume enough: "2 * length ?cs \<le> length teams"
  have ret: "initialize teams m = Inr ?m'"
    using enough by (rule initialize_returns)
  have nth: "\<forall>k < length ?cs. courts (state ?m') ! k =
              (?cs ! k)
                \<lparr>currentMatch :=
                   Some (new_match (teams ! (2 * k)) (teams ! (2 * k + 1))
                           (matchCounter m + int k + 1) (court_id (?cs ! k))),
                 consecutiveWins := 0, currentCourtTeam := None\<rparr>"
    by (simp add: assign_courts_nth)
  have distinct_pairs: "(\<forall>k < length ?cs.
              \<not> areTeamsEqual (teams ! (2 * k)) (teams ! (2 * k + 1))) \<longrightarrow>
          (\<forall>k < length ?cs.
              \<exists>cm. currentMatch (courts (state ?m') ! k) = Some cm \<and>
                   \<not> areTeamsEqual (team1 cm) (team2 cm))"
    by (simp add: assign_courts_nth new_match_def)
  have rest: "length (courts (state ?m')) = length ?cs"
    "queue (state ?m') = drop (2 * length ?cs) teams"
    "length (queue (state ?m')) + 2 * length ?cs = length teams"
    "matchHistory (state ?m') = []"
    "matchCounter ?m' = matchCounter m + int (length ?cs)"
    using enough by (simp_all add: assign_courts_length)
  show "\<exists>m'. initialize teams m = Inr m' \<and>
         length (courts (state m')) = length ?cs \<and>
         (\<forall>k < length ?cs.
            courts (state m') ! k =
              (?cs ! k)
                \<lparr>currentMatch :=
                   Some (new_match (teams ! (2 * k)) (teams ! (2 * k + 1))
                           (matchCounter m + int k + 1) (court_id (?cs ! k))),
                 consecutiveWins := 0, currentCourtTeam := None\<rparr>) \<and>
         queue (state m') = drop (2 * length ?cs) teams \<and>
         length (queue (state m')) + 2 * length ?cs = length teams \<and>
         matchHistory (state m') = [] \<and>
         matchCounter m' = matchCounter m + int (length ?cs) \<and>
         ((\<forall>k < length ?cs.
              \<not> areTeamsEqual (teams ! (2 * k)) (teams ! (2 * k + 1))) \<longrightarrow>
          (\<forall>k < length ?cs.
              \<exists>cm. currentMatch (courts (state m') ! k) = Some cm \<and>
                   \<not> areTeamsEqual (team1 cm) (team2 cm)))"
    using ret nth distinct_pairs rest by blast
qed

text \<open>
  C3, as stated, does not hold for every list that is long enough: \<open>initialize\<close> does not
  compare the teams, and a list that names a team twice in a row puts it on a court against
  itself.
\<close>

theorem initialize_result_counterexample:
  "length [team_A, team_A] \<ge> 2 * length (courts (state one_court)) \<and>
   thrown (initialize [team_A, team_A] one_court) = None \<and>
   match_after 1 (initialize [team_A, team_A] one_court) = Some (team_A, team_A) \<and>
   areTeamsEqual team_A team_A"
  by code_simp

theorem initialize_result_witness:
  "initialize [team_A] one_court = Inl (InsufficientTeamsError, one_court) \<and>
   (\<exists>m'. initialize [team_A, team_B, team_C, team_D] one_court = Inr m' \<and>
      queue (state m') = [team_C, team_D] \<and>
      currentMatch (courts (state m') ! 0) = Some (new_match team_A team_B 1 1) \<and>
      (\<exists>cm. currentMatch (courts (state m') ! 0) = Some cm \<and> \<not> areTeamsEqual (team1 cm) (team2 cm)))"
proof -
  have few: "length [team_A] < 2 * length (courts (state one_court))"
    by code_simp
  have fails: "initialize [team_A] one_court = Inl (InsufficientTeamsError, one_court)"
    using initialize_result [of "[team_A]" one_court] few by blast
  let ?teams = "[team_A, team_B, team_C, team_D]"
  have enough: "2 * length (courts (state one_court)) \<le> length ?teams"
    by code_simp
  have n: "length (courts (state one_court)) = 1"
    by code_simp
  have pairs: "\<forall>k < length (courts (state one_court)).
      \<not> areTeamsEqual (?teams ! (2 * k)) (?teams ! (2 * k + 1))"
    unfolding n by (simp, code_simp)
  from initialize_result [of ?teams one_court] enough pairs
  obtain m' where m': "initialize ?teams one_court = Inr m'"
    and q: "queue (state m') = drop (2 * length (courts (state one_court))) ?teams"
    and c: "\<forall>k < length (courts (state one_court)).
            courts (state m') ! k =
              (courts (state one_court) ! k)
                \<lparr>currentMatch :=
                   Some (new_match (?teams ! (2 * k)) (?teams ! (2 * k + 1))
                           (matchCounter one_court + int k + 1) (court_id (courts (state one_court) ! k))),
                 consecutiveWins := 0, currentCourtTeam := None\<rparr>"
    and d: "\<forall>k < length (courts (state one_court)).
              \<exists>cm. currentMatch (courts (state m') ! k) = Some cm \<and>
                   \<not> areTeamsEqual (team1 cm) (team2 cm)"
    by blast
  have q': "queue (state m') = [team_C, team_D]"
    unfolding q n by simp
  have c0: "currentMatch (courts (state m') ! 0) = Some (new_match team_A team_B 1 1)"
    using c unfolding n by (simp add: one_court_def new_court_def)
  have d0: "\<exists>cm. currentMatch (courts (state m') ! 0) = Some cm \<and> \<not> areTeamsEqual (team1 cm) (team2 cm)"
    using d unfolding n by simp
  show ?thesis
    using fails m' q' c0 d0 by blast
qed

subsection \<open>Objects\<close>

lemma keys_object_set:
  "map fst (object_set k v ps) = (if k \<in> set (map fst ps) then map fst ps else map fst ps @ [k])"
  by (induction ps) auto

lemma distinct_keys_object_set:
  "distinct (map fst ps) \<Longrightarrow> distinct (map fst (object_set k v ps))"
  by (simp add: keys_object_set)

lemma distinct_keys_fold_object_set:
  "distinct (map fst acc) \<Longrightarrow>
   distinct (map fst (fold (\<lambda>p obj. object_set (fst p) (snd p) obj) props acc))"
  by (induction props arbitrary: acc) (simp_all add: distinct_keys_object_set)

lemma distinct_keys_object_of: "distinct (map fst (object_of props))"
  by (simp add: object_of_def distinct_keys_fold_object_set)

lemma mset_Object_entries: "mset (Object_entries props) = mset (object_of props)"
  by (simp add: Object_entries_def Let_def)

lemma distinct_keys_Object_entries: "distinct (map fst (Object_entries props))"
proof -
  have "mset (map fst (Object_entries props)) = mset (map fst (object_of props))"
    by (simp add: mset_Object_entries)
  then show ?thesis
    using distinct_keys_object_of [of props] by (metis mset_eq_imp_distinct_iff)
qed

lemma length_score_entries [simp]: "length (score_entries sm) = length (Object_entries sm)"
  by (simp add: score_entries_def)

lemma valid_teams_iff:
  "valid_teams cm (score_entries sm) =
   (\<forall>p \<in> set (Object_entries sm). areTeamsEqual (snd p) (team1 cm) \<or> areTeamsEqual (snd p) (team2 cm))"
  by (simp add: valid_teams_def score_entries_def list_all_iff)

text \<open>
  The comparator \<^verbatim>\<open>(a, b) => b.score - a.score\<close> is positive exactly when \<open>b\<close>'s score is
  strictly higher. Of two entries the sort puts the second first exactly then: two entries
  with equal scores, or with scores that do not compare, stay as they are.
\<close>

lemma sort_order_minus: "0 < sort_order (number_minus b a) \<longleftrightarrow> number_less a b"
  by (cases a; cases b)
     (auto simp: sort_order_def number_minus_def number_plus_def number_negate_def number_less_def)

lemma number_less_irrefl [simp]: "\<not> number_less a a"
  by (cases a) (simp_all add: number_less_def)

lemma number_less_asym: "number_less a b \<Longrightarrow> \<not> number_less b a"
  by (cases a; cases b) (auto simp: number_less_def)

lemma two_entries:
  assumes "length (score_entries sm) = 2"
  obtains first second where "score_entries sm = [first, second]"
  using assms by (cases "score_entries sm"; cases "tl (score_entries sm)") auto

lemma sorted_scores_entries:
  assumes "score_entries sm = [first, second]"
  shows "sorted_scores sm =
     (if number_less (score first) (score second) then [second, first] else [first, second])"
proof -
  have "sort_order (number_minus (score second) (score first)) \<le> 0
        \<longleftrightarrow> \<not> number_less (score first) (score second)"
    using sort_order_minus [of "score second" "score first"] by auto
  then show ?thesis
    by (simp add: sorted_scores_def assms array_sort_two)
qed

lemma sorted_scores_pair:
  assumes "length (score_entries sm) = 2"
  obtains hi lo where "sorted_scores sm = [hi, lo]"
proof -
  from assms obtain first second where "score_entries sm = [first, second]"
    by (rule two_entries)
  then show ?thesis
    using that by (cases "number_less (score first) (score second)") (simp_all add: sorted_scores_entries)
qed

subsection \<open>Failures of recordResult\<close>

lemma recordResult_no_court:
  "find_court cid (courts (state m)) = None \<Longrightarrow> recordResult now cid sm m = Inl (CourtNotFoundError, m)"
  by (simp add: recordResult_def)

lemma recordResult_no_match:
  "find_court cid (courts (state m)) = Some court \<Longrightarrow> currentMatch court = None \<Longrightarrow>
   recordResult now cid sm m = Inl (NoActiveMatchError, m)"
  by (simp add: recordResult_def)

lemma recordResult_invalid:
  "find_court cid (courts (state m)) = Some court \<Longrightarrow> currentMatch court = Some cm \<Longrightarrow>
   \<not> (length (score_entries sm) = 2 \<and> valid_teams cm (score_entries sm)) \<Longrightarrow>
   recordResult now cid sm m = Inl (InvalidMatchResultError, m)"
  by (auto simp: recordResult_def Let_def)

lemma recordResult_valid_returns:
  "find_court cid (courts (state m)) = Some court \<Longrightarrow> currentMatch court = Some cm \<Longrightarrow>
   length (score_entries sm) = 2 \<Longrightarrow> valid_teams cm (score_entries sm) \<Longrightarrow>
   \<exists>m'. recordResult now cid sm m = Inr m'"
  by (simp add: recordResult_valid apply_queue_rules_returns)

lemma recordResult_cases:
  obtains (no_court) "find_court cid (courts (state m)) = None"
      "recordResult now cid sm m = Inl (CourtNotFoundError, m)"
  | (no_match) court where "find_court cid (courts (state m)) = Some court" "currentMatch court = None"
      "recordResult now cid sm m = Inl (NoActiveMatchError, m)"
  | (invalid) court cm where "find_court cid (courts (state m)) = Some court"
      "currentMatch court = Some cm"
      "\<not> (length (score_entries sm) = 2 \<and> valid_teams cm (score_entries sm))"
      "recordResult now cid sm m = Inl (InvalidMatchResultError, m)"
  | (valid) court cm m' where "find_court cid (courts (state m)) = Some court"
      "currentMatch court = Some cm"
      "length (score_entries sm) = 2" "valid_teams cm (score_entries sm)"
      "recordResult now cid sm m = Inr m'"
proof (cases "find_court cid (courts (state m))")
  case None
  then show ?thesis using no_court recordResult_no_court by blast
next
  case (Some court)
  show ?thesis
  proof (cases "currentMatch court")
    case None
    with Some show ?thesis using no_match recordResult_no_match by blast
  next
    case cm: (Some cm)
    show ?thesis
    proof (cases "length (score_entries sm) = 2 \<and> valid_teams cm (score_entries sm)")
      case True
      with Some cm recordResult_valid_returns [of cid m court cm sm now] show ?thesis
        using valid by blast
    next
      case False
      with Some cm show ?thesis using invalid recordResult_invalid by blast
    qed
  qed
qed

text \<open>
  C4, amended. \<open>recordResult\<close> throws \<^verbatim>\<open>CourtNotFoundError\<close> exactly when no court has
  the id; \<^verbatim>\<open>NoActiveMatchError\<close> exactly when the court exists and has no match;
  \<^verbatim>\<open>InvalidMatchResultError\<close> exactly when the court has a match and the score map does not
  hold exactly two entries each of whose teams is, by \<open>areTeamsEqual\<close>, one of the two teams
  of the match. Whatever it throws, the manager is as it was before the call.
\<close>

theorem recordResult_failures:
  "(thrown (recordResult now cid sm m) = Some CourtNotFoundError \<longleftrightarrow>
      find_court cid (courts (state m)) = None) \<and>
   (thrown (recordResult now cid sm m) = Some NoActiveMatchError \<longleftrightarrow>
      (\<exists>court. find_court cid (courts (state m)) = Some court \<and> currentMatch court = None)) \<and>
   (thrown (recordResult now cid sm m) = Some InvalidMatchResultError \<longleftrightarrow>
      (\<exists>court cm. find_court cid (courts (state m)) = Some court \<and> currentMatch court = Some cm \<and>
         \<not> (length (Object_entries sm) = 2 \<and>
            (\<forall>p \<in> set (Object_entries sm).
               areTeamsEqual (snd p) (team1 cm) \<or> areTeamsEqual (snd p) (team2 cm))))) \<and>
   (\<forall>e m'. recordResult now cid sm m = Inl (e, m') \<longrightarrow> m' = m)"
proof (cases rule: recordResult_cases [of cid m now sm])
  case no_court
  then show ?thesis by (simp add: thrown_def)
next
  case (no_match court)
  then show ?thesis by (simp add: thrown_def)
next
  case (invalid court cm)
  then show ?thesis by (simp add: thrown_def valid_teams_iff)
next
  case (valid court cm m')
  then show ?thesis by (simp add: thrown_def valid_teams_iff)
qed

text \<open>
  C9. \<open>recordResult\<close> never throws \<^verbatim>\<open>InsufficientTeamsError\<close>: neither throw site
  can be reached. Once the court is found, has a match, and the score map holds two entries
  of teams of that match, the call returns.
\<close>

theorem recordResult_never_insufficient:
  "(\<forall>m'. recordResult now cid sm m \<noteq> Inl (InsufficientTeamsError, m')) \<and>
   (\<forall>court cm. find_court cid (courts (state m)) = Some court \<and> currentMatch court = Some cm \<and>
       length (score_entries sm) = 2 \<and> valid_teams cm (score_entries sm)
       \<longrightarrow> (\<exists>m'. recordResult now cid sm m = Inr m'))"
proof (cases rule: recordResult_cases [of cid m now sm])
  case no_court
  then show ?thesis by simp
next
  case (no_match court)
  then show ?thesis by simp
next
  case (invalid court cm)
  then show ?thesis by auto
next
  case (valid court cm m')
  then show ?thesis by simp
qed

theorem recordResult_never_insufficient_witness:
  "thrown (recordResult 0 1 [(''15'', team_A), (''12'', team_B)] (manager_of four_teams))
     \<noteq> Some InsufficientTeamsError \<and>
   (\<exists>m'. recordResult 0 1 [(''15'', team_A), (''12'', team_B)] (manager_of four_teams) = Inr m')"
proof -
  let ?m = "manager_of four_teams"
  let ?c = "hd (courts (state ?m))"
  let ?sm = "[(''15'', team_A), (''12'', team_B)]"
  have h: "find_court 1 (courts (state ?m)) = Some ?c \<and>
      currentMatch ?c = Some (new_match team_A team_B 1 1) \<and>
      length (score_entries ?sm) = 2 \<and>
      valid_teams (new_match team_A team_B 1 1) (score_entries ?sm)"
    by code_simp
  note never = recordResult_never_insufficient [of 0 1 ?sm ?m]
  from never h have returns: "\<exists>m'. recordResult 0 1 ?sm ?m = Inr m'"
    by blast
  from never have "\<forall>m'. recordResult 0 1 ?sm ?m \<noteq> Inl (InsufficientTeamsError, m')"
    by blast
  then have "thrown (recordResult 0 1 ?sm ?m) \<noteq> Some InsufficientTeamsError"
    by (cases "recordResult 0 1 ?sm ?m") (auto simp: thrown_def)
  with returns show ?thesis by blast
qed

subsection \<open>Team identity\<close>

lemma length_sorted_ids [simp]: "length (sorted_ids t) = 2"
  by (simp add: sorted_ids_def)

lemma areTeamsEqual_iff: "areTeamsEqual a b \<longleftrightarrow> sorted_ids a = sorted_ids b"
proof -
  obtain x y where a: "sorted_ids a = [x, y]"
    using length_sorted_ids [of a] by (cases "sorted_ids a"; cases "tl (sorted_ids a)") auto
  obtain u v where b: "sorted_ids b = [u, v]"
    using length_sorted_ids [of b] by (cases "sorted_ids b"; cases "tl (sorted_ids b)") auto
  show ?thesis by (simp add: areTeamsEqual_def Let_def a b)
qed

lemma areTeamsEqual_refl [simp]: "areTeamsEqual a a"
  by (simp add: areTeamsEqual_iff)

lemma areTeamsEqual_sym: "areTeamsEqual a b \<Longrightarrow> areTeamsEqual b a"
  by (simp add: areTeamsEqual_iff)

lemma areTeamsEqual_trans: "areTeamsEqual a b \<Longrightarrow> areTeamsEqual b c \<Longrightarrow> areTeamsEqual a c"
  by (simp add: areTeamsEqual_iff)


subsection \<open>What the queue rules do to the teams\<close>

lemma find_court_update:
  "(\<And>c. court_id (f c) = court_id c) \<Longrightarrow> find_court cid cs = Some court \<Longrightarrow>
   find_court cid (update_court cid f cs) = Some (f court)"
  by (induction cs) (auto simp: find_court_def split: if_splits)

lemma court_teams_update_same:
  "(\<And>c. court_teams (f c) = court_teams c) \<Longrightarrow>
   map court_teams (update_court cid f cs) = map court_teams cs"
  by (induction cs) auto

lemma court_teams_update:
  "find_court cid cs = Some court \<Longrightarrow>
   mset (concat (map court_teams (update_court cid f cs))) + mset (court_teams court)
   = mset (concat (map court_teams cs)) + mset (court_teams (f court))"
  by (induction cs) (auto simp: find_court_def split: if_splits)

lemma court_teams_update_streak [simp]: "court_teams (update_streak w c) = court_teams c"
  by (simp add: update_streak_def court_teams_def)

lemma apply_queue_rules_history:
  "apply_queue_rules cid streak w l m = Inr m' \<Longrightarrow> matchHistory (state m') = matchHistory (state m)"
  by (cases "streak \<ge> 2 \<and> length (queue (state m)) \<ge> 2")
    (auto simp: apply_queue_rules_single apply_queue_rules_double)

lemma apply_queue_rules_queue_length:
  "apply_queue_rules cid streak w l m = Inr m' \<Longrightarrow> length (queue (state m')) = length (queue (state m))"
  by (cases "streak \<ge> 2 \<and> length (queue (state m)) \<ge> 2")
    (auto simp: apply_queue_rules_single apply_queue_rules_double)

lemma apply_queue_rules_teams:
  assumes court: "find_court cid (courts (state m)) = Some court"
    and ret: "apply_queue_rules cid streak w l m = Inr m'"
  shows "mset (teams_in_play m') + mset (court_teams court) = mset (teams_in_play m) + {#w, l#}"
proof (cases "streak \<ge> 2 \<and> length (queue (state m)) \<ge> 2")
  case True
  let ?q = "queue (state m)"
  from True obtain a b rest where q: "?q = a # b # rest"
    by (cases ?q; cases "tl ?q") auto
  let ?f = "\<lambda>c. c\<lparr>consecutiveWins := 0, currentCourtTeam := None,
                  currentMatch := Some (new_match (?q ! 0) (?q ! 1) (matchCounter m + 1) (court_id c))\<rparr>"
  from True ret have m': "courts (state m') = update_court cid ?f (courts (state m))"
    "queue (state m') = drop 2 ?q @ [w, l]"
    by (auto simp: apply_queue_rules_double)
  have "court_teams (?f court) = [a, b]"
    by (simp add: court_teams_def new_match_def q)
  with court_teams_update [OF court, of ?f]
  have "mset (concat (map court_teams (courts (state m')))) + mset (court_teams court)
        = mset (concat (map court_teams (courts (state m)))) + {#a, b#}"
    by (simp add: m')
  then show ?thesis
    by (simp add: teams_in_play_def m' q)
next
  case False
  let ?q = "queue (state m)"
  let ?f = "\<lambda>c. c\<lparr>currentMatch :=
                    Some (new_match w (hd (?q @ [l])) (matchCounter m + 1) (court_id c))\<rparr>"
  from False ret have m': "courts (state m') = update_court cid ?f (courts (state m))"
    "queue (state m') = tl (?q @ [l])"
    by (auto simp: apply_queue_rules_single)
  have "court_teams (?f court) = [w, hd (?q @ [l])]"
    by (simp add: court_teams_def new_match_def)
  with court_teams_update [OF court, of ?f]
  have "mset (concat (map court_teams (courts (state m')))) + mset (court_teams court)
        = mset (concat (map court_teams (courts (state m)))) + {#w, hd (?q @ [l])#}"
    by (simp add: m')
  moreover have "mset (tl (?q @ [l])) + {#hd (?q @ [l])#} = mset ?q + {#l#}"
    by (cases ?q) simp_all
  ultimately show ?thesis
    by (simp add: teams_in_play_def m') (metis (no_types, lifting) add.assoc add.commute add_mset_add_single)
qed

subsection \<open>Keys and identities\<close>

text \<open>
  The decimal rendering is injective, and the string order is a strict total order on
  strings, so the sorted pair of ids is the same for the two orders of a pair: two teams
  are equal exactly when they have the same two player ids, and exactly when they have the
  same key.
\<close>

lemma digit_char_code: "d < 10 \<Longrightarrow> (of_char (digit_char d) :: nat) = 48 + d"
  by (simp add: digit_char_def)

lemma digit_char_inj: "d < 10 \<Longrightarrow> d' < 10 \<Longrightarrow> digit_char d = digit_char d' \<Longrightarrow> d = d'"
  using digit_char_code [of d] digit_char_code [of d'] by (metis add_left_cancel)

lemma digit_char_not_minus: "d < 10 \<Longrightarrow> digit_char d \<noteq> CHR ''-''"
  using digit_char_code [of d] by auto

lemma digits_of_nonempty: "digits_of n \<noteq> []"
  by (subst digits_of.simps) simp

lemma digits_of_no_minus: "c \<in> set (digits_of n) \<Longrightarrow> c \<noteq> CHR ''-''"
proof (induction n arbitrary: c rule: digits_of.induct)
  case (1 n)
  show ?case
  proof (cases "n < 10")
    case True
    with "1.prems" show ?thesis
      by (subst (asm) digits_of.simps) (simp add: digit_char_not_minus)
  next
    case False
    with "1.prems" have "c \<in> set (digits_of (n div 10)) \<or> c = digit_char (n mod 10)"
      by (subst (asm) digits_of.simps) auto
    moreover have "digit_char (n mod 10) \<noteq> CHR ''-''"
      by (simp add: digit_char_not_minus)
    ultimately show ?thesis
      using False "1.IH" by auto
  qed
qed

lemma digits_of_inj: "digits_of n = digits_of m \<Longrightarrow> n = m"
proof (induction n arbitrary: m rule: digits_of.induct)
  case (1 n)
  show ?case
  proof (cases "n < 10")
    case small: True
    show ?thesis
    proof (cases "m < 10")
      case True
      with small "1.prems" show ?thesis
        by (simp add: digits_of.simps [of n] digits_of.simps [of m] digit_char_inj)
    next
      case False
      with small "1.prems" digits_of_nonempty [of "m div 10"] show ?thesis
        by (simp add: digits_of.simps [of n] digits_of.simps [of m])
    qed
  next
    case big: False
    show ?thesis
    proof (cases "m < 10")
      case True
      with big "1.prems" digits_of_nonempty [of "n div 10"] show ?thesis
        by (simp add: digits_of.simps [of n] digits_of.simps [of m])
    next
      case False
      with big "1.prems" have eq: "digits_of (n div 10) = digits_of (m div 10)"
        "digit_char (n mod 10) = digit_char (m mod 10)"
        by (simp_all add: digits_of.simps [of n] digits_of.simps [of m])
      from "1.IH" [OF big eq(1)] have "n div 10 = m div 10" .
      moreover from eq(2) have "n mod 10 = m mod 10"
        by (simp add: digit_char_inj)
      ultimately show ?thesis
        by (metis div_mult_mod_eq)
    qed
  qed
qed

lemma hd_digits_of_not_minus: "hd (digits_of n) \<noteq> CHR ''-''"
  using digits_of_nonempty [of n] digits_of_no_minus [of "hd (digits_of n)" n] by simp

lemma toString_inj: "toString i = toString j \<Longrightarrow> i = j"
proof -
  assume eq: "toString i = toString j"
  have neg: "hd (toString k) = CHR ''-'' \<longleftrightarrow> k < 0" for k
    using hd_digits_of_not_minus by (simp add: toString_def)
  from eq have sign: "i < 0 \<longleftrightarrow> j < 0"
    using neg [of i] neg [of j] by simp
  show ?thesis
  proof (cases "i < 0")
    case True
    with sign eq have "digits_of (nat (- i)) = digits_of (nat (- j))"
      by (simp add: toString_def)
    then have "nat (- i) = nat (- j)" by (rule digits_of_inj)
    with True sign show ?thesis by simp
  next
    case False
    with sign eq have "digits_of (nat i) = digits_of (nat j)"
      by (simp add: toString_def)
    then have "nat i = nat j" by (rule digits_of_inj)
    with False sign show ?thesis by simp
  qed
qed

lemma string_less_irrefl: "\<not> string_less xs xs"
  by (induction xs) auto

lemma string_less_asym: "string_less xs ys \<Longrightarrow> \<not> string_less ys xs"
  by (induction xs ys rule: string_less.induct) auto

lemma string_less_total: "string_less xs ys \<or> xs = ys \<or> string_less ys xs"
proof (induction xs ys rule: string_less.induct)
  case (4 x xs y ys)
  have "(of_char x :: nat) = of_char y \<Longrightarrow> x = y"
    by (rule of_char_eqI)
  with 4 show ?case by (auto simp: not_less_iff_gr_or_eq)
qed simp_all

lemma default_compare_zero: "default_compare a b = 0 \<longleftrightarrow> a = b"
  using string_less_total [of "toString a" "toString b"] string_less_irrefl toString_inj
  by (auto simp: default_compare_def)

lemma default_compare_flip: "default_compare a b \<le> 0 \<Longrightarrow> default_compare b a \<le> 0 \<Longrightarrow> a = b"
  using string_less_asym [of "toString a" "toString b"] default_compare_zero [of a b]
  by (auto simp: default_compare_def split: if_splits)

lemma default_compare_one: "\<not> default_compare a b \<le> 0 \<Longrightarrow> default_compare b a \<le> 0"
  by (auto simp: default_compare_def split: if_splits)

lemma sort_pair_swap: "array_sort default_compare [a, b] = array_sort default_compare [b, a]"
  using default_compare_flip [of a b] default_compare_one [of a b]
  by (auto simp: array_sort_two)

lemma mset_array_sort_ids:
  "mset (array_sort default_compare [a, b]) = {#a, b#}"
  by (auto simp: array_sort_two)

lemma areTeamsEqual_ids:
  "areTeamsEqual a b \<longleftrightarrow>
   {#player_id (player1 a), player_id (player2 a)#} = {#player_id (player1 b), player_id (player2 b)#}"
proof
  assume "areTeamsEqual a b"
  then have "mset (sorted_ids a) = mset (sorted_ids b)"
    by (simp add: areTeamsEqual_iff)
  then show "{#player_id (player1 a), player_id (player2 a)#}
      = {#player_id (player1 b), player_id (player2 b)#}"
    by (simp add: sorted_ids_def mset_array_sort_ids del: mset.simps)
next
  assume "{#player_id (player1 a), player_id (player2 a)#}
      = {#player_id (player1 b), player_id (player2 b)#}"
  then have "(player_id (player1 a) = player_id (player1 b) \<and> player_id (player2 a) = player_id (player2 b))
      \<or> (player_id (player1 a) = player_id (player2 b) \<and> player_id (player2 a) = player_id (player1 b))"
    by (auto simp: add_eq_conv_ex)
  then show "areTeamsEqual a b"
    using sort_pair_swap [of "player_id (player1 b)" "player_id (player2 b)"]
    by (auto simp: areTeamsEqual_iff sorted_ids_def)
qed





subsection \<open>The recorded winner, and what a call preserves\<close>

lemma mset_insert_by [simp]: "mset (insert_by cmp x xs) = add_mset x (mset xs)"
  by (induction xs) auto

lemma mset_array_sort [simp]: "mset (array_sort cmp xs) = mset xs"
  by (induction xs) (auto simp: array_sort_def)

lemma recordResult_history:
  assumes "find_court cid (courts (state m)) = Some court"
    and "currentMatch court = Some cm"
    and "length (score_entries sm) = 2"
    and "valid_teams cm (score_entries sm)"
    and "recordResult now cid sm m = Inr m'"
  shows "matchHistory (state m') = matchHistory (state m) @ [match_result now court cm (sorted_scores sm)]"
  using assms(5) unfolding recordResult_valid [OF assms(1-4)]
  by (auto dest: apply_queue_rules_history)

lemma score_eta [simp]: "\<lparr>team = team s, score = score s\<rparr> = s"
  by (cases s) simp

lemma match_result_pair:
  "winner (match_result now court cm [hi, lo]) = team hi"
  "loser (match_result now court cm [hi, lo]) = team lo"
  "scores (match_result now court cm [hi, lo]) = Some (hi, lo)"
  "played (match_result now court cm [hi, lo]) = cm"
  by (simp_all add: match_result_def)

text \<open>
  C6. A call that returns has appended one result to the log. Of the two entries of the
  score map, taken in the order of \<^verbatim>\<open>Object.entries\<close>, the one whose score is strictly higher
  gives the winner and the other the loser, and the result lists the winner's score ahead of
  the loser's. When neither score is strictly higher, as when the two are equal, the first
  entry gives the winner and the second the loser. A tie is not rejected: on a court with
  a match, a score map that holds two entries with equal scores, each of a team of the
  match, is recorded, with the team of the first entry as winner.
\<close>

theorem recordResult_winner:
  "(\<forall>m'. recordResult now cid sm m = Inr m' \<longrightarrow>
      (\<exists>r first second.
         score_entries sm = [first, second] \<and>
         matchHistory (state m') = matchHistory (state m) @ [r] \<and>
         (number_less (score first) (score second) \<longrightarrow>
            winner r = team second \<and> loser r = team first \<and> scores r = Some (second, first)) \<and>
         (number_less (score second) (score first) \<longrightarrow>
            winner r = team first \<and> loser r = team second \<and> scores r = Some (first, second)) \<and>
         (\<not> number_less (score first) (score second) \<and> \<not> number_less (score second) (score first) \<longrightarrow>
            winner r = team first \<and> loser r = team second \<and> scores r = Some (first, second)))) \<and>
   (\<forall>court cm first second.
      find_court cid (courts (state m)) = Some court \<and> currentMatch court = Some cm \<and>
      score_entries sm = [first, second] \<and> valid_teams cm [first, second] \<and>
      score first = score second \<longrightarrow>
      (\<exists>m' r. recordResult now cid sm m = Inr m' \<and>
         matchHistory (state m') = matchHistory (state m) @ [r] \<and>
         winner r = team first \<and> loser r = team second \<and> scores r = Some (first, second)))"
proof (intro conjI allI impI)
  fix m'
  assume ret: "recordResult now cid sm m = Inr m'"
  show "\<exists>r first second.
         score_entries sm = [first, second] \<and>
         matchHistory (state m') = matchHistory (state m) @ [r] \<and>
         (number_less (score first) (score second) \<longrightarrow>
            winner r = team second \<and> loser r = team first \<and> scores r = Some (second, first)) \<and>
         (number_less (score second) (score first) \<longrightarrow>
            winner r = team first \<and> loser r = team second \<and> scores r = Some (first, second)) \<and>
         (\<not> number_less (score first) (score second) \<and> \<not> number_less (score second) (score first) \<longrightarrow>
            winner r = team first \<and> loser r = team second \<and> scores r = Some (first, second))"
  proof (cases rule: recordResult_cases [of cid m now sm])
    case no_court
    with ret show ?thesis by simp
  next
    case (no_match court)
    with ret show ?thesis by simp
  next
    case (invalid court cm)
    with ret show ?thesis by simp
  next
    case (valid court cm m'')
    let ?r = "match_result now court cm (sorted_scores sm)"
    from valid(3) obtain first second where entries: "score_entries sm = [first, second]"
      by (rule two_entries)
    have hist: "matchHistory (state m') = matchHistory (state m) @ [?r]"
      using valid(1-4) ret by (rule recordResult_history)
    have higher_second: "number_less (score first) (score second) \<longrightarrow>
        winner ?r = team second \<and> loser ?r = team first \<and> scores ?r = Some (second, first)"
      by (simp add: sorted_scores_entries [OF entries] match_result_pair)
    have otherwise: "\<not> number_less (score first) (score second) \<longrightarrow>
        winner ?r = team first \<and> loser ?r = team second \<and> scores ?r = Some (first, second)"
      by (simp add: sorted_scores_entries [OF entries] match_result_pair)
    have higher_first: "number_less (score second) (score first) \<longrightarrow>
        winner ?r = team first \<and> loser ?r = team second \<and> scores ?r = Some (first, second)"
      using otherwise number_less_asym by blast
    from entries hist higher_second higher_first otherwise show ?thesis
      by blast
  qed
next
  fix court cm first second
  assume tie: "find_court cid (courts (state m)) = Some court \<and> currentMatch court = Some cm \<and>
      score_entries sm = [first, second] \<and> valid_teams cm [first, second] \<and>
      score first = score second"
  let ?r = "match_result now court cm (sorted_scores sm)"
  from tie have court: "find_court cid (courts (state m)) = Some court"
    and cm: "currentMatch court = Some cm"
    and entries: "score_entries sm = [first, second]"
    and equal: "score first = score second"
    by simp_all
  from tie have two: "length (score_entries sm) = 2" and valid: "valid_teams cm (score_entries sm)"
    by simp_all
  from recordResult_valid_returns [OF court cm two valid]
  obtain m' where ret: "recordResult now cid sm m = Inr m'"
    by blast
  have hist: "matchHistory (state m') = matchHistory (state m) @ [?r]"
    using court cm two valid ret by (rule recordResult_history)
  have "winner ?r = team first \<and> loser ?r = team second \<and> scores ?r = Some (first, second)"
    by (simp add: sorted_scores_entries [OF entries] match_result_pair equal)
  with ret hist
  show "\<exists>m' r. recordResult now cid sm m = Inr m' \<and>
         matchHistory (state m') = matchHistory (state m) @ [r] \<and>
         winner r = team first \<and> loser r = team second \<and> scores r = Some (first, second)"
    by blast
qed

text \<open>
  C10, amended. A call that returns leaves the length of the queue unchanged; and it leaves
  the multiset of team identities on the courts and in the queue unchanged when the two
  entries of the score map name, between them, the identities of the court's two teams.
\<close>

theorem recordResult_preserves:
  assumes ret: "recordResult now cid sm m = Inr m'"
  shows "length (queue (state m')) = length (queue (state m)) \<and>
    (\<forall>court cm. find_court cid (courts (state m)) = Some court \<and> currentMatch court = Some cm \<and>
        mset (map (\<lambda>p. getTeamKey (snd p)) (Object_entries sm))
          = {#getTeamKey (team1 cm), getTeamKey (team2 cm)#}
        \<longrightarrow> identities m' = identities m)"
proof (cases rule: recordResult_cases [of cid m now sm])
  case no_court
  with ret show ?thesis by simp
next
  case (no_match court)
  with ret show ?thesis by simp
next
  case (invalid court cm)
  with ret show ?thesis by simp
next
  case (valid court cm m'')
  let ?w = "team (sorted_scores sm ! 0)"
  let ?l = "team (sorted_scores sm ! 1)"
  let ?m2 = "\<lparr>state =
          \<lparr>courts = update_court cid (update_streak ?w) (courts (state m)),
           queue = queue (state m),
           matchHistory = matchHistory (state m) @ [match_result now court cm (sorted_scores sm)]\<rparr>,
        matchCounter = matchCounter m\<rparr>"
  have rules: "apply_queue_rules cid (consecutiveWins (update_streak ?w court)) ?w ?l ?m2 = Inr m'"
    using ret unfolding recordResult_valid [OF valid(1-4)] .
  have len: "length (queue (state m')) = length (queue (state m))"
    using apply_queue_rules_queue_length [OF rules] by simp
  have found: "find_court cid (courts (state ?m2)) = Some (update_streak ?w court)"
    using valid(1) by (simp add: find_court_update)
  have same: "teams_in_play ?m2 = teams_in_play m"
    by (simp add: teams_in_play_def court_teams_update_same)
  have "court_teams court = [team1 cm, team2 cm]"
    by (simp add: court_teams_def valid(2))
  then have "court_teams (update_streak ?w court) = [team1 cm, team2 cm]"
    by simp
  with apply_queue_rules_teams [OF found rules]
  have teams: "mset (teams_in_play m') + {#team1 cm, team2 cm#} = mset (teams_in_play m) + {#?w, ?l#}"
    by (simp add: same)
  then have "image_mset getTeamKey (mset (teams_in_play m') + {#team1 cm, team2 cm#})
             = image_mset getTeamKey (mset (teams_in_play m) + {#?w, ?l#})"
    by simp
  then have ids: "identities m' + {#getTeamKey (team1 cm), getTeamKey (team2 cm)#}
             = identities m + {#getTeamKey ?w, getTeamKey ?l#}"
    by (simp add: identities_def)
  from valid(3) obtain hi lo where sorted: "sorted_scores sm = [hi, lo]"
    by (rule sorted_scores_pair)
  have "map (\<lambda>p. getTeamKey (snd p)) (Object_entries sm)
        = map (\<lambda>s. getTeamKey (team s)) (score_entries sm)"
    by (simp add: score_entries_def comp_def)
  also have "mset \<dots> = image_mset (\<lambda>s. getTeamKey (team s)) (mset (sorted_scores sm))"
    by (simp add: sorted_scores_def)
  also have "\<dots> = {#getTeamKey ?w, getTeamKey ?l#}"
    by (simp add: sorted)
  finally have named: "mset (map (\<lambda>p. getTeamKey (snd p)) (Object_entries sm))
      = {#getTeamKey ?w, getTeamKey ?l#}" .
  have "identities m' = identities m"
    if "mset (map (\<lambda>p. getTeamKey (snd p)) (Object_entries sm))
          = {#getTeamKey (team1 cm), getTeamKey (team2 cm)#}"
  proof -
    have "{#getTeamKey ?w, getTeamKey ?l#} = {#getTeamKey (team1 cm), getTeamKey (team2 cm)#}"
      using named that by (simp only:)
    with ids have "identities m' + {#getTeamKey (team1 cm), getTeamKey (team2 cm)#}
        = identities m + {#getTeamKey (team1 cm), getTeamKey (team2 cm)#}"
      by (simp only:)
    then show ?thesis
      by (simp only: add_right_cancel)
  qed
  with len valid(1,2) show ?thesis
    by auto
qed

lemma returned_manager: "r = Inr m' \<Longrightarrow> r = Inr (manager_of r)"
  by (simp add: manager_of_def)

lemma thrown_manager: "thrown r = Some e \<Longrightarrow> r = Inl (e, manager_of r)"
  by (cases r) (auto simp: thrown_def manager_of_def)

text \<open>
  C4, as stated, does not hold: a score map whose two entries both name team A is accepted
  on a court that plays A against B, although its teams are not the two teams of the match.
\<close>

theorem recordResult_failures_counterexample:
  "match_after 1 four_teams = Some (team_A, team_B) \<and>
   \<not> areTeamsEqual team_A team_B \<and>
   length (Object_entries [(''15'', team_A), (''12'', team_A)]) = 2 \<and>
   thrown (recordResult 0 1 [(''15'', team_A), (''12'', team_A)] (manager_of four_teams)) = None"
  by code_simp

theorem recordResult_failures_witness:
  "thrown (recordResult 0 999 [(''15'', team_A), (''10'', team_B)] (manager_of four_teams))
     = Some CourtNotFoundError \<and>
   thrown (recordResult 0 1 [(''15'', team_A), (''10'', team_B)] one_court) = Some NoActiveMatchError \<and>
   thrown (recordResult 0 1 [(''15'', team_C), (''10'', team_A)] (manager_of four_teams))
     = Some InvalidMatchResultError \<and>
   manager_of (recordResult 0 1 [(''15'', team_C), (''10'', team_A)] (manager_of four_teams))
     = manager_of four_teams"
proof -
  let ?m = "manager_of four_teams"
  let ?ab = "[(''15'', team_A), (''10'', team_B)]"
  let ?ca = "[(''15'', team_C), (''10'', team_A)]"
  have "find_court 999 (courts (state ?m)) = None"
    by code_simp
  with recordResult_failures [of 0 999 ?ab ?m]
  have a: "thrown (recordResult 0 999 ?ab ?m) = Some CourtNotFoundError"
    by blast
  have "find_court 1 (courts (state one_court)) = Some (new_court 1) \<and> currentMatch (new_court 1) = None"
    by code_simp
  with recordResult_failures [of 0 1 ?ab one_court]
  have b: "thrown (recordResult 0 1 ?ab one_court) = Some NoActiveMatchError"
    by blast
  have "find_court 1 (courts (state ?m)) = Some (hd (courts (state ?m))) \<and>
      currentMatch (hd (courts (state ?m))) = Some (new_match team_A team_B 1 1) \<and>
      \<not> (length (Object_entries ?ca) = 2 \<and>
         (\<forall>p \<in> set (Object_entries ?ca).
            areTeamsEqual (snd p) (team1 (new_match team_A team_B 1 1)) \<or>
            areTeamsEqual (snd p) (team2 (new_match team_A team_B 1 1))))"
    by code_simp
  with recordResult_failures [of 0 1 ?ca ?m]
  have c: "thrown (recordResult 0 1 ?ca ?m) = Some InvalidMatchResultError"
    by blast
  then have "recordResult 0 1 ?ca ?m = Inl (InvalidMatchResultError, manager_of (recordResult 0 1 ?ca ?m))"
    by (rule thrown_manager)
  with recordResult_failures [of 0 1 ?ca ?m]
  have d: "manager_of (recordResult 0 1 ?ca ?m) = ?m"
    by blast
  from a b c d show ?thesis by blast
qed

theorem recordResult_winner_witness:
  "(\<exists>m' r. recordResult 0 1 [(''15'', team_A), (''15.0'', team_B)] (manager_of four_teams) = Inr m' \<and>
      matchHistory (state m') = [r] \<and> winner r = team_A \<and> loser r = team_B \<and>
      scores r = Some (\<lparr>team = team_A, score = Finite 15\<rparr>, \<lparr>team = team_B, score = Finite 15\<rparr>)) \<and>
   (\<exists>m' r. recordResult 0 1 [(''15.0'', team_B), (''15'', team_A)] (manager_of four_teams) = Inr m' \<and>
      matchHistory (state m') = [r] \<and> winner r = team_A \<and> loser r = team_B) \<and>
   (\<exists>m' r. recordResult 0 1 [(''12'', team_A), (''15'', team_B)] (manager_of four_teams) = Inr m' \<and>
      matchHistory (state m') = [r] \<and> winner r = team_B \<and> loser r = team_A \<and>
      scores r = Some (\<lparr>team = team_B, score = Finite 15\<rparr>, \<lparr>team = team_A, score = Finite 12\<rparr>))"
proof -
  let ?m = "manager_of four_teams"
  let ?c = "hd (courts (state ?m))"
  let ?cm = "new_match team_A team_B 1 1"
  let ?tie = "[(''15'', team_A), (''15.0'', team_B)]"
  let ?tie' = "[(''15.0'', team_B), (''15'', team_A)]"
  let ?win = "[(''12'', team_A), (''15'', team_B)]"
  let ?a15 = "\<lparr>team = team_A, score = Finite 15\<rparr>"
  let ?b15 = "\<lparr>team = team_B, score = Finite 15\<rparr>"
  let ?a12 = "\<lparr>team = team_A, score = Finite 12\<rparr>"
  have court: "find_court 1 (courts (state ?m)) = Some ?c" "currentMatch ?c = Some ?cm"
    by code_simp+
  have empty: "matchHistory (state ?m) = []"
    by code_simp
  have e1: "score_entries ?tie = [?a15, ?b15]" and e2: "score_entries ?tie' = [?a15, ?b15]"
    and e3: "score_entries ?win = [?a12, ?b15]"
    by code_simp+
  have v1: "valid_teams ?cm [?a15, ?b15]" and v3: "valid_teams ?cm [?a12, ?b15]"
    by code_simp+
  from recordResult_winner [of 0 1 ?tie ?m] court e1 v1
  have first: "\<exists>m' r. recordResult 0 1 ?tie ?m = Inr m' \<and>
      matchHistory (state m') = matchHistory (state ?m) @ [r] \<and>
      winner r = team ?a15 \<and> loser r = team ?b15 \<and> scores r = Some (?a15, ?b15)"
    by simp
  from recordResult_winner [of 0 1 ?tie' ?m] court e2 v1
  have second: "\<exists>m' r. recordResult 0 1 ?tie' ?m = Inr m' \<and>
      matchHistory (state m') = matchHistory (state ?m) @ [r] \<and>
      winner r = team ?a15 \<and> loser r = team ?b15 \<and> scores r = Some (?a15, ?b15)"
    by simp
  have "length (score_entries ?win) = 2" "valid_teams ?cm (score_entries ?win)"
    using v3 by (simp_all add: e3)
  with court obtain m' where ret: "recordResult 0 1 ?win ?m = Inr m'"
    using recordResult_valid_returns by blast
  have less: "number_less (score ?a12) (score ?b15)"
    by code_simp
  from recordResult_winner [of 0 1 ?win ?m] ret
  obtain r first second where r: "score_entries ?win = [first, second]"
      "matchHistory (state m') = matchHistory (state ?m) @ [r]"
      "number_less (score first) (score second) \<longrightarrow>
         winner r = team second \<and> loser r = team first \<and> scores r = Some (second, first)"
    by blast
  from r(1) have "first = ?a12" "second = ?b15"
    by (simp_all add: e3)
  with r(2,3) less ret
  have third: "\<exists>m' r. recordResult 0 1 ?win ?m = Inr m' \<and>
      matchHistory (state m') = matchHistory (state ?m) @ [r] \<and>
      winner r = team ?b15 \<and> loser r = team ?a12 \<and> scores r = Some (?b15, ?a12)"
    by blast
  from first second third show ?thesis
    unfolding empty by auto
qed

text \<open>
  C10, as stated, does not hold: the score map that names team A twice is accepted on the
  court that plays A against B; afterwards A is on the court and in the queue, and B is
  nowhere.
\<close>

theorem recordResult_preserves_counterexample:
  "match_after 1 four_teams = Some (team_A, team_B) \<and>
   thrown (recordResult 0 1 [(''15'', team_A), (''12'', team_A)] (manager_of four_teams)) = None \<and>
   map getTeamKey (teams_in_play (manager_of four_teams)) = [''1-2'', ''3-4'', ''5-6'', ''7-8''] \<and>
   map getTeamKey (teams_in_play
       (manager_of (recordResult 0 1 [(''15'', team_A), (''12'', team_A)] (manager_of four_teams))))
     = [''1-2'', ''5-6'', ''7-8'', ''1-2''] \<and>
   identities (manager_of (recordResult 0 1 [(''15'', team_A), (''12'', team_A)] (manager_of four_teams)))
     \<noteq> identities (manager_of four_teams)"
proof -
  let ?m = "manager_of four_teams"
  let ?m' = "manager_of (recordResult 0 1 [(''15'', team_A), (''12'', team_A)] ?m)"
  have a: "match_after 1 four_teams = Some (team_A, team_B)"
    "thrown (recordResult 0 1 [(''15'', team_A), (''12'', team_A)] ?m) = None"
    by code_simp+
  have b: "map getTeamKey (teams_in_play ?m) = [''1-2'', ''3-4'', ''5-6'', ''7-8'']"
    by code_simp
  have c: "map getTeamKey (teams_in_play ?m') = [''1-2'', ''5-6'', ''7-8'', ''1-2'']"
    by code_simp
  have "count (identities ?m) ''3-4'' \<noteq> count (identities ?m') ''3-4''"
    unfolding identities_def b c by simp
  then have "identities ?m' \<noteq> identities ?m"
    by metis
  with a b c show ?thesis by blast
qed

theorem recordResult_preserves_witness:
  "length (queue (state (manager_of (recordResult 0 1 [(''15'', team_A), (''12'', team_B)] (manager_of four_teams)))))
     = length (queue (state (manager_of four_teams))) \<and>
   identities (manager_of (recordResult 0 1 [(''15'', team_A), (''12'', team_B)] (manager_of four_teams)))
     = identities (manager_of four_teams)"
proof -
  let ?m = "manager_of four_teams"
  let ?sm = "[(''15'', team_A), (''12'', team_B)]"
  let ?cm = "new_match team_A team_B 1 1"
  have h: "find_court 1 (courts (state ?m)) = Some (hd (courts (state ?m)))"
    "currentMatch (hd (courts (state ?m))) = Some ?cm"
    "length (score_entries ?sm) = 2"
    "valid_teams ?cm (score_entries ?sm)"
    by code_simp+
  then obtain m' where "recordResult 0 1 ?sm ?m = Inr m'"
    using recordResult_valid_returns by blast
  then have ret: "recordResult 0 1 ?sm ?m = Inr (manager_of (recordResult 0 1 ?sm ?m))"
    by (rule returned_manager)
  have "map (\<lambda>p. getTeamKey (snd p)) (Object_entries ?sm) = [''3-4'', ''1-2'']"
    "getTeamKey (team1 ?cm) = ''1-2''" "getTeamKey (team2 ?cm) = ''3-4''"
    by code_simp+
  then have named: "mset (map (\<lambda>p. getTeamKey (snd p)) (Object_entries ?sm))
      = {#getTeamKey (team1 ?cm), getTeamKey (team2 ?cm)#}"
    by simp
  from recordResult_preserves [OF ret] h(1,2) named show ?thesis
    by blast
qed

subsection \<open>getTeamStatistics: the statistics map\<close>

lemma keys_map_modify [simp]: "map fst (map_modify k f mp) = map fst mp"
  by (induction mp) auto





























subsection \<open>Sorting with a comparator\<close>

lemma set_insert_by [simp]: "set (insert_by cmp x xs) = insert x (set xs)"
  by (induction xs) auto

lemma sum_insert_by [simp]:
  "sum_list (map g (insert_by cmp x xs)) = (g x :: int) + sum_list (map g xs)"
  by (induction xs) auto

lemma sum_array_sort [simp]: "sum_list (map g (array_sort cmp xs)) = (sum_list (map g xs) :: int)"
  by (induction xs) (auto simp: array_sort_def)

lemma set_array_sort [simp]: "set (array_sort cmp xs) = set xs"
  using mset_array_sort [of cmp xs] by (metis mset_eq_setD)





subsection \<open>Sums over the statistics map\<close>





lemma keys_image_map_modify [simp]: "fst ` set (map_modify k f mp) = fst ` set mp"
  using keys_map_modify [of k f mp] by (metis set_map)

lemma fresh_statistics_fields [simp]:
  "wins (fresh_statistics t) = 0" "losses (fresh_statistics t) = 0"
  "totalPoints (fresh_statistics t) = Finite 0" "pointsAgainst (fresh_statistics t) = Finite 0"
  "stat_team (fresh_statistics t) = t"
  by (simp_all add: fresh_statistics_def)








subsection \<open>The results that recordResult logs\<close>

text \<open>
  A call whose score map names two different teams, with finite scores, appends a well
  recorded result: the logs that such calls build from an empty log are well recorded.
\<close>

lemma recordResult_well_recorded:
  assumes ret: "recordResult now cid sm m = Inr m'"
    and before: "list_all well_recorded (matchHistory (state m))"
    and finite: "list_all (\<lambda>s. is_finite (score s)) (score_entries sm)"
    and different: "\<not> areTeamsEqual (team (score_entries sm ! 0)) (team (score_entries sm ! 1))"
  shows "list_all well_recorded (matchHistory (state m'))"
proof (cases rule: recordResult_cases [of cid m now sm])
  case no_court
  with ret show ?thesis by simp
next
  case (no_match court)
  with ret show ?thesis by simp
next
  case (invalid court cm)
  with ret show ?thesis by simp
next
  case (valid court cm m'')
  let ?r = "match_result now court cm (sorted_scores sm)"
  from valid(3) obtain first second where entries: "score_entries sm = [first, second]"
    by (rule two_entries)
  have hist: "matchHistory (state m') = matchHistory (state m) @ [?r]"
    using valid(1-4) ret by (rule recordResult_history)
  from finite have fin: "is_finite (score first)" "is_finite (score second)"
    by (simp_all add: entries)
  from different have ne: "\<not> areTeamsEqual (team first) (team second)"
    by (simp add: entries)
  then have ne': "\<not> areTeamsEqual (team second) (team first)"
    using areTeamsEqual_sym by blast
  from valid(4) have named: "areTeamsEqual (team first) (team1 cm) \<or> areTeamsEqual (team first) (team2 cm)"
    "areTeamsEqual (team second) (team1 cm) \<or> areTeamsEqual (team second) (team2 cm)"
    by (simp_all add: entries valid_teams_def)
  have both: "(areTeamsEqual (team first) (team1 cm) \<and> areTeamsEqual (team second) (team2 cm)) \<or>
      (areTeamsEqual (team first) (team2 cm) \<and> areTeamsEqual (team second) (team1 cm))"
    using named ne areTeamsEqual_sym areTeamsEqual_trans by blast
  have "well_recorded ?r"
  proof (cases "number_less (score first) (score second)")
    case True
    then have "sorted_scores sm = [second, first]"
      by (simp add: sorted_scores_entries [OF entries])
    then show ?thesis
      using fin ne' both by (auto simp: well_recorded_def match_result_pair)
  next
    case False
    then have "sorted_scores sm = [first, second]"
      by (simp add: sorted_scores_entries [OF entries])
    then show ?thesis
      using fin ne both by (auto simp: well_recorded_def match_result_pair)
  qed
  with before show ?thesis
    by (simp add: hist)
qed

subsection \<open>The statistics of a log\<close>




subsection \<open>Undo and redo\<close>

lemma without_live_scores_idem [simp]:
  "without_live_scores (without_live_scores c) = without_live_scores c"
  by (cases "currentMatch c") (simp_all add: without_live_scores_def)

lemma createSnapshot_idem [simp]: "createSnapshot (createSnapshot m) = createSnapshot m"
  by (simp add: createSnapshot_def set_courts_def comp_def)

lemma length_push_bounded:
  "length xs \<le> cap \<Longrightarrow> length (push_bounded cap x xs) \<le> cap"
  by (auto simp: push_bounded_def)

lemma push_bounded_nonempty: "1 \<le> cap \<Longrightarrow> push_bounded cap x xs \<noteq> []"
  by (cases xs) (auto simp: push_bounded_def)

lemma last_push_bounded: "1 \<le> cap \<Longrightarrow> last (push_bounded cap x xs) = x"
  by (cases xs) (auto simp: push_bounded_def)

lemma push_bounded_again:
  assumes "1 \<le> cap" "length xs \<le> cap"
  shows "push_bounded cap x (butlast (push_bounded cap x xs)) = push_bounded cap x xs"
proof -
  let ?ys = "push_bounded cap x xs"
  have "?ys \<noteq> []" "last ?ys = x"
    using assms(1) by (simp_all add: push_bounded_nonempty last_push_bounded)
  then have "butlast ?ys @ [x] = ?ys"
    by (metis append_butlast_last_id)
  moreover have "length ?ys \<le> cap"
    using assms(2) by (rule length_push_bounded)
  ultimately show ?thesis
    by (simp add: push_bounded_def [of cap x "butlast ?ys"])
qed

lemma push_bounded_empty: "1 \<le> cap \<Longrightarrow> push_bounded cap x [] = [x]"
  by (simp add: push_bounded_def)

lemma tracked_returns:
  assumes "tracked mutation e = Inr e'"
  obtains m' where "mutation (manager e) = Inr m'"
    and "e' = \<lparr>manager = m',
              undoStack = push_bounded (maxHistorySize e) (createSnapshot (manager e)) (undoStack e),
              redoStack = [], maxHistorySize = maxHistorySize e\<rparr>"
proof (cases "mutation (manager e)")
  case (Inl failure)
  with assms show ?thesis by (simp add: tracked_def)
next
  case (Inr m')
  with assms have "e' = (saveSnapshot e)\<lparr>manager := m'\<rparr>"
    by (simp add: tracked_def)
  then have "e' = \<lparr>manager = m',
              undoStack = push_bounded (maxHistorySize e) (createSnapshot (manager e)) (undoStack e),
              redoStack = [], maxHistorySize = maxHistorySize e\<rparr>"
    by (cases e) (simp add: saveSnapshot_def)
  with Inr that show ?thesis by blast
qed

text \<open>A new engine has its stacks within the cap, and \<open>undo\<close> and \<open>redo\<close> keep them there.\<close>

lemma new_Engine_bounded:
  "length (undoStack (new_Engine m cap)) \<le> maxHistorySize (new_Engine m cap) \<and>
   length (redoStack (new_Engine m cap)) \<le> maxHistorySize (new_Engine m cap)"
  by (simp add: new_Engine_def)

lemma undo_bounded:
  assumes "length (undoStack e) \<le> maxHistorySize e" "length (redoStack e) \<le> maxHistorySize e"
  shows "length (undoStack (snd (undo e))) \<le> maxHistorySize (snd (undo e)) \<and>
         length (redoStack (snd (undo e))) \<le> maxHistorySize (snd (undo e))"
  using assms by (auto simp: undo_def length_push_bounded)

lemma redo_bounded:
  assumes "length (undoStack e) \<le> maxHistorySize e" "length (redoStack e) \<le> maxHistorySize e"
  shows "length (undoStack (snd (redo e))) \<le> maxHistorySize (snd (redo e)) \<and>
         length (redoStack (snd (redo e))) \<le> maxHistorySize (snd (redo e))"
  using assms by (auto simp: redo_def length_push_bounded)

text \<open>
  C8, amended. On the model of the undo and redo stacks, for every mutation (so for the
  four tracked ones) and every engine whose undo stack is within the cap: a tracked
  mutation that succeeds pushes the snapshot of the manager before it onto the undo stack,
  dropping the oldest entry beyond the cap, and empties the redo stack; the undo stack
  stays within the cap; \<open>undo\<close> on an empty undo stack returns failure and changes nothing;
  and, when the cap is at least 1, \<open>undo\<close> after the mutation succeeds and restores the
  snapshot, and \<open>redo\<close> after it succeeds and gives back the engine as it was right after
  the mutation, with the live scores of its courts removed.
\<close>

theorem undo_redo_roundtrip:
  assumes cap: "1 \<le> maxHistorySize e"
    and bounded: "length (undoStack e) \<le> maxHistorySize e"
    and returned: "tracked mutation e = Inr e'"
  shows "undoStack e' =
      (if length (undoStack e) < maxHistorySize e
       then undoStack e @ [createSnapshot (manager e)]
       else tl (undoStack e @ [createSnapshot (manager e)])) \<and>
    last (undoStack e') = createSnapshot (manager e) \<and>
    redoStack e' = [] \<and>
    maxHistorySize e' = maxHistorySize e \<and>
    length (undoStack e') \<le> maxHistorySize e' \<and>
    (\<forall>e0. undoStack e0 = [] \<longrightarrow> undo e0 = (False, e0)) \<and>
    undo e' = (True, e'\<lparr>manager := createSnapshot (manager e),
                         undoStack := butlast (undoStack e'),
                         redoStack := [createSnapshot (manager e')]\<rparr>) \<and>
    redo (snd (undo e')) = (True, e'\<lparr>manager := createSnapshot (manager e')\<rparr>)"
proof -
  let ?cap = "maxHistorySize e"
  let ?s = "createSnapshot (manager e)"
  let ?U = "push_bounded ?cap ?s (undoStack e)"
  from returned obtain m' where e': "e' = \<lparr>manager = m', undoStack = ?U, redoStack = [],
      maxHistorySize = ?cap\<rparr>"
    by (rule tracked_returns)
  have U: "?U \<noteq> []" "last ?U = ?s" "length ?U \<le> ?cap"
    using cap bounded by (simp_all add: push_bounded_nonempty last_push_bounded length_push_bounded)
  have empty: "\<forall>e0. undoStack e0 = [] \<longrightarrow> undo e0 = (False, e0)"
    by (simp add: undo_def)
  have u: "undo e' = (True, e'\<lparr>manager := ?s, undoStack := butlast ?U,
                         redoStack := [createSnapshot m']\<rparr>)"
    using U cap by (simp add: undo_def e' push_bounded_empty)
  have r: "redo (snd (undo e')) = (True, e'\<lparr>manager := createSnapshot m'\<rparr>)"
    unfolding u using cap bounded by (simp add: redo_def e' push_bounded_again)
  have pushed: "?U = (if length (undoStack e) < ?cap then undoStack e @ [?s]
                     else tl (undoStack e @ [?s]))"
    using bounded by (auto simp: push_bounded_def)
  have "undoStack e' = ?U"
    by (simp add: e')
  with pushed have first: "undoStack e' =
      (if length (undoStack e) < ?cap then undoStack e @ [?s] else tl (undoStack e @ [?s]))"
    by (simp only:)
  have rest: "last (undoStack e') = ?s \<and>
    redoStack e' = [] \<and>
    maxHistorySize e' = ?cap \<and>
    length (undoStack e') \<le> maxHistorySize e' \<and>
    (\<forall>e0. undoStack e0 = [] \<longrightarrow> undo e0 = (False, e0)) \<and>
    undo e' = (True, e'\<lparr>manager := ?s,
                         undoStack := butlast (undoStack e'),
                         redoStack := [createSnapshot (manager e')]\<rparr>) \<and>
    redo (snd (undo e')) = (True, e'\<lparr>manager := createSnapshot (manager e')\<rparr>)"
    using U empty u r by (simp add: e')
  from first rest show ?thesis
    by (rule conjI)
qed

text \<open>
  C8, as stated, does not hold where a court has live scores: snapshots leave them out, so
  after \<open>undo\<close> and \<open>redo\<close> the manager differs from the one right after the mutation.
\<close>

theorem undo_redo_roundtrip_counterexample:
  "live_scores_of 1 (manager live_engine_added) = Some (10, 0) \<and>
   getUndoDepth live_engine_added = 1 \<and>
   fst (undo live_engine_added) = True \<and>
   fst (redo (snd (undo live_engine_added))) = True \<and>
   live_scores_of 1 (manager (snd (redo (snd (undo live_engine_added))))) = None \<and>
   manager (snd (redo (snd (undo live_engine_added)))) \<noteq> manager live_engine_added"
  by code_simp

theorem undo_redo_roundtrip_witness:
  "redo (snd (undo live_engine_added))
     = (True, live_engine_added\<lparr>manager := createSnapshot (manager live_engine_added)\<rparr>) \<and>
   redo (snd (undo recorded_engine))
     = (True, recorded_engine\<lparr>manager := createSnapshot (manager recorded_engine)\<rparr>) \<and>
   redo (snd (undo reordered_engine))
     = (True, reordered_engine\<lparr>manager := createSnapshot (manager reordered_engine)\<rparr>) \<and>
   redo (snd (undo edited_engine))
     = (True, edited_engine\<lparr>manager := createSnapshot (manager edited_engine)\<rparr>) \<and>
   createSnapshot (manager recorded_engine) = manager recorded_engine"
proof -
  have a: "1 \<le> maxHistorySize live_engine" "length (undoStack live_engine) \<le> maxHistorySize live_engine"
    "tracked (addTeams [team_D]) live_engine = Inr live_engine_added"
    by code_simp+
  let ?e1 = "new_Engine (manager_of three_teams) 20"
  have b: "1 \<le> maxHistorySize ?e1" "length (undoStack ?e1) \<le> maxHistorySize ?e1"
    "tracked (recordResult 0 1 [(''15'', team_A), (''10'', team_B)]) ?e1 = Inr recorded_engine"
    by code_simp+
  let ?e2 = "new_Engine (manager_of four_teams) 20"
  have c: "1 \<le> maxHistorySize ?e2" "length (undoStack ?e2) \<le> maxHistorySize ?e2"
    "tracked (reorderTeamInQueue 1 0) ?e2 = Inr reordered_engine"
    by code_simp+
  let ?e3 = "new_Engine (manager_of four_teams_first_win) 20"
  have d: "1 \<le> maxHistorySize ?e3" "length (undoStack ?e3) \<le> maxHistorySize ?e3"
    "tracked (editMatchResult 0 [\<lparr>team = team_B, score = Finite 21\<rparr>,
                               \<lparr>team = team_A, score = Finite 19\<rparr>]) ?e3
       = Inr edited_engine"
    by code_simp+
  have same: "createSnapshot (manager recorded_engine) = manager recorded_engine"
    by code_simp
  from undo_redo_roundtrip [OF a] undo_redo_roundtrip [OF b] undo_redo_roundtrip [OF c]
    undo_redo_roundtrip [OF d] same
  show ?thesis by blast
qed

end
